theory Spec2Isabelle
  imports Main "HOL-Library.Word"
begin

section \<open>JavaScript values\<close>

text \<open>
  The values that reach the wrapper layer. A primitive is a boolean, a number or a
  string. The numbers are the integers from \<open>-2^53\<close> to \<open>2^53 - 1\<close>, each of which a
  JavaScript number holds exactly and prints in plain decimal; they are kept as a word
  of 54 bits read as signed (the library does no arithmetic on them). \<open>JWrapper n\<close> is
  an instance of \<open>DOMWrapper\<close> (or of a subclass) whose \<open>element\<close> property is the DOM
  node \<open>n\<close>. \<open>JHolder n fs\<close> is an object that is not an instance of \<open>DOMWrapper\<close>
  and whose \<open>element\<close> property is the DOM node \<open>n\<close>; \<open>fs\<close> are its other own
  properties. \<open>JArray\<close> and \<open>JObject\<close> are arrays and plain records (own properties
  in order, lookup by name); no property of theirs is a DOM node. All these objects have
  the prototype that their kind has by default; a property is a value of this type, so
  no object here has a callable property of its own.
\<close>

datatype js_error =
  TypeError | HierarchyRequestError | NotFoundError | InvalidCharacterError | SyntaxError

datatype jsval =
  JUndefined
| JNull
| JBool bool
| JNum "54 word"
| JStr string
| JWrapper nat
| JHolder nat "(string \<times> jsval) list"
| JArray "jsval list"
| JObject "(string \<times> jsval) list"

text \<open>\<open>v == null\<close>\<close>

fun eq_null :: "jsval \<Rightarrow> bool" where
  "eq_null JUndefined = True"
| "eq_null JNull = True"
| "eq_null _ = False"

text \<open>\<open>typeof(v) === "object"\<close> (which holds of \<open>null\<close>)\<close>

fun typeof_object :: "jsval \<Rightarrow> bool" where
  "typeof_object JNull = True"
| "typeof_object (JWrapper _) = True"
| "typeof_object (JHolder _ _) = True"
| "typeof_object (JArray _) = True"
| "typeof_object (JObject _) = True"
| "typeof_object _ = False"

text \<open>\<open>v instanceof DOMWrapper\<close>\<close>

fun instanceof_DOMWrapper :: "jsval \<Rightarrow> bool" where
  "instanceof_DOMWrapper (JWrapper _) = True"
| "instanceof_DOMWrapper _ = False"

text \<open>The truth value of \<open>v\<close> in \<open>if (v)\<close> and \<open>v || ""\<close>\<close>

fun truthy :: "jsval \<Rightarrow> bool" where
  "truthy JUndefined = False"
| "truthy JNull = False"
| "truthy (JBool b) = b"
| "truthy (JNum i) = (i \<noteq> 0)"
| "truthy (JStr s) = (s \<noteq> [])"
| "truthy (JWrapper _) = True"
| "truthy (JHolder _ _) = True"
| "truthy (JArray _) = True"
| "truthy (JObject _) = True"

text \<open>The decimal digits of a natural number.\<close>

fun digits :: "nat \<Rightarrow> string" where
  "digits n = (if n < 10 then [''0123456789'' ! n]
               else digits (n div 10) @ [''0123456789'' ! (n mod 10)])"

declare digits.simps [simp del]

definition int_to_string :: "int \<Rightarrow> string" where
  "int_to_string i = (if i < 0 then CHR ''-'' # digits (nat (- i)) else digits (nat i))"

fun join_comma :: "string list \<Rightarrow> string" where
  "join_comma [] = []"
| "join_comma [s] = s"
| "join_comma (s # t # ss) = s @ CHR '','' # join_comma (t # ss)"

text \<open>
  The string conversion of a value: \<open>v.toString()\<close> for a primitive, and the
  conversion that the platform applies to a \<open>DOMString\<close> argument. An array joins the
  conversions of its elements, \<open>null\<close> and \<open>undefined\<close> counting as empty. Any other
  object is converted by its \<open>toString\<close>: the inherited one gives
  \<open>[object Object]\<close>, and an own property \<open>toString\<close>, which is not callable, makes
  the conversion throw.
\<close>

fun to_string :: "jsval \<Rightarrow> js_error + string"
  and to_strings :: "jsval list \<Rightarrow> js_error + string list"
where
  "to_string JUndefined = Inr ''undefined''"
| "to_string JNull = Inr ''null''"
| "to_string (JBool b) = Inr (if b then ''true'' else ''false'')"
| "to_string (JNum i) = Inr (int_to_string (sint i))"
| "to_string (JStr s) = Inr s"
| "to_string (JWrapper _) = Inr ''[object Object]''"
| "to_string (JHolder _ fs) =
     (if map_of fs ''toString'' \<noteq> None then Inl TypeError else Inr ''[object Object]'')"
| "to_string (JArray vs) =
     (case to_strings vs of Inl e \<Rightarrow> Inl e | Inr ss \<Rightarrow> Inr (join_comma ss))"
| "to_string (JObject fs) =
     (if map_of fs ''toString'' \<noteq> None then Inl TypeError else Inr ''[object Object]'')"
| "to_strings [] = Inr []"
| "to_strings (v # vs) =
     (case (if eq_null v then Inr [] else to_string v) of
        Inl e \<Rightarrow> Inl e
      | Inr s \<Rightarrow> (case to_strings vs of Inl e \<Rightarrow> Inl e | Inr ss \<Rightarrow> Inr (s # ss)))"

text \<open>Reading the property \<open>k\<close> of a value, for the names \<open>classes\<close> and
  \<open>content\<close> that \<open>appendRows\<close> reads of an object that is not a wrapper: an array
  has neither.\<close>

fun get_prop :: "jsval \<Rightarrow> string \<Rightarrow> jsval" where
  "get_prop (JObject fs) k = (case map_of fs k of None \<Rightarrow> JUndefined | Some v \<Rightarrow> v)"
| "get_prop (JHolder _ fs) k = (case map_of fs k of None \<Rightarrow> JUndefined | Some v \<Rightarrow> v)"
| "get_prop _ k = JUndefined"

text \<open>The DOM node that the property \<open>element\<close> of an object holds, if it holds
  one.\<close>

fun element_of :: "jsval \<Rightarrow> nat option" where
  "element_of (JWrapper n) = Some n"
| "element_of (JHolder n _) = Some n"
| "element_of _ = None"

text \<open>The spread \<open>...v\<close> of a truthy value: an array gives its elements, a string its
  characters, anything else is not iterable.\<close>

fun spread :: "jsval \<Rightarrow> js_error + jsval list" where
  "spread (JArray vs) = Inr vs"
| "spread (JStr s) = Inr (map (\<lambda>c. JStr [c]) s)"
| "spread _ = Inl TypeError"

section \<open>The platform's document tree\<close>

text \<open>
  A store of nodes: the node with identity \<open>n\<close> is the \<open>n\<close>-th entry, and a new node
  takes the next index. A node is a text node with its content or an element with its
  tag; it has a class token list, its child nodes in order, and its parent.
\<close>

datatype node_kind = TextNode string | ElementNode string

record dnode =
  kind :: node_kind
  classList :: "string list"
  childNodes :: "nat list"
  parentNode :: "nat option"

type_synonym dom = "dnode list"

fun is_element_kind :: "node_kind \<Rightarrow> bool" where
  "is_element_kind (ElementNode _) = True"
| "is_element_kind (TextNode _) = False"

definition is_element :: "dom \<Rightarrow> nat \<Rightarrow> bool" where
  "is_element d n = (n < length d \<and> is_element_kind (kind (d ! n)))"

definition createTextNode :: "string \<Rightarrow> dom \<Rightarrow> nat \<times> dom" where
  "createTextNode s d =
     (length d, d @ [\<lparr>kind = TextNode s, classList = [], childNodes = [], parentNode = None\<rparr>])"

definition createElement :: "string \<Rightarrow> dom \<Rightarrow> nat \<times> dom" where
  "createElement tag d =
     (length d, d @ [\<lparr>kind = ElementNode tag, classList = [], childNodes = [], parentNode = None\<rparr>])"

text \<open>The chain of parents of a node, walked for at most \<open>k\<close> steps.\<close>

fun ancestors :: "dom \<Rightarrow> nat \<Rightarrow> nat \<Rightarrow> nat list" where
  "ancestors d 0 n = []"
| "ancestors d (Suc k) n =
     (if n < length d
      then (case parentNode (d ! n) of None \<Rightarrow> [] | Some p \<Rightarrow> p # ancestors d k p)
      else [])"

definition inclusive_ancestor :: "dom \<Rightarrow> nat \<Rightarrow> nat \<Rightarrow> bool" where
  "inclusive_ancestor d a n = (a = n \<or> a \<in> set (ancestors d (length d) n))"

text \<open>Taking a node out of its parent's child list, if it has a parent.\<close>

definition detach :: "nat \<Rightarrow> dom \<Rightarrow> dom" where
  "detach c d =
     (case parentNode (d ! c) of
        None \<Rightarrow> d
      | Some q \<Rightarrow>
          (let d1 = d[q := (d ! q)\<lparr>childNodes := removeAll c (childNodes (d ! q))\<rparr>]
           in d1[c := (d1 ! c)\<lparr>parentNode := None\<rparr>]))"

definition insert_last :: "nat \<Rightarrow> nat \<Rightarrow> dom \<Rightarrow> dom" where
  "insert_last p c d =
     (let d1 = d[p := (d ! p)\<lparr>childNodes := childNodes (d ! p) @ [c]\<rparr>]
      in d1[c := (d1 ! c)\<lparr>parentNode := Some p\<rparr>])"

text \<open>
  \<open>p.appendChild(c)\<close>: a \<open>TypeError\<close> when an argument is not a node, a
  \<open>HierarchyRequestError\<close> when \<open>p\<close> cannot have children or \<open>c\<close> is \<open>p\<close> or one of
  its ancestors; otherwise \<open>c\<close> leaves its old parent and becomes the last child of \<open>p\<close>.
\<close>

definition appendChild :: "nat \<Rightarrow> nat \<Rightarrow> dom \<Rightarrow> js_error + dom" where
  "appendChild p c d =
     (if \<not> (p < length d \<and> c < length d) then Inl TypeError
      else if \<not> is_element d p then Inl HierarchyRequestError
      else if inclusive_ancestor d c p then Inl HierarchyRequestError
      else Inr (insert_last p c (detach c d)))"

text \<open>\<open>p.removeChild(c)\<close>: a \<open>NotFoundError\<close> when \<open>c\<close> is not a child of \<open>p\<close>.\<close>

definition removeChild :: "nat \<Rightarrow> nat \<Rightarrow> dom \<Rightarrow> js_error + dom" where
  "removeChild p c d =
     (if \<not> (p < length d \<and> c < length d) then Inl TypeError
      else if parentNode (d ! c) \<noteq> Some p then Inl NotFoundError
      else Inr (detach c d))"

text \<open>\<open>p.children\<close>: the child nodes that are elements.\<close>

definition children :: "nat \<Rightarrow> dom \<Rightarrow> nat list" where
  "children p d = filter (\<lambda>c. is_element d c) (childNodes (d ! p))"

definition ascii_whitespace :: "char \<Rightarrow> bool" where
  "ascii_whitespace c = (c \<in> set [CHR '' '', CHR 0x09, CHR 0x0A, CHR 0x0C, CHR 0x0D])"

text \<open>
  \<open>n.classList.add(tok)\<close>: a \<open>TypeError\<close> when \<open>n\<close> has no class list (it is not an
  element), a \<open>SyntaxError\<close> for the empty token, an \<open>InvalidCharacterError\<close> for a
  token with whitespace; otherwise the token joins the list unless it is there already.
\<close>

definition classList_add :: "nat \<Rightarrow> string \<Rightarrow> dom \<Rightarrow> js_error + dom" where
  "classList_add n tok d =
     (if \<not> is_element d n then Inl TypeError
      else if tok = [] then Inl SyntaxError
      else if \<exists>c \<in> set tok. ascii_whitespace c then Inl InvalidCharacterError
      else if tok \<in> set (classList (d ! n)) then Inr d
      else Inr (d[n := (d ! n)\<lparr>classList := classList (d ! n) @ [tok]\<rparr>]))"

section \<open>The wrappers\<close>

text \<open>A wrapper is identified with the node it owns; a method that returns \<open>this\<close>
  returns that wrapper together with the new tree.\<close>

subsection \<open>DOMWrapper\<close>

text \<open>\<open>addClasses(...classes)\<close>: each truthy entry goes to \<open>classList.add\<close>, which
  converts it to a string first.\<close>

fun addClasses :: "nat \<Rightarrow> jsval list \<Rightarrow> dom \<Rightarrow> js_error + (nat \<times> dom)" where
  "addClasses this [] d = Inr (this, d)"
| "addClasses this (cls # classes) d =
     (if truthy cls
      then (case to_string cls of
              Inl e \<Rightarrow> Inl e
            | Inr tok \<Rightarrow>
                (case classList_add this tok d of
                   Inl e \<Rightarrow> Inl e
                 | Inr d1 \<Rightarrow> addClasses this classes d1))
      else addClasses this classes d)"

subsection \<open>TextNodeWrapper and ElementWrapper\<close>

text \<open>\<open>new TextNodeWrapper(text)\<close> creates the text node of \<open>text || ""\<close>, which
  \<open>createTextNode\<close> converts to a string.\<close>

definition TextNodeWrapper :: "jsval \<Rightarrow> dom \<Rightarrow> js_error + (nat \<times> dom)" where
  "TextNodeWrapper text d =
     (if truthy text
      then (case to_string text of Inl e \<Rightarrow> Inl e | Inr s \<Rightarrow> Inr (createTextNode s d))
      else Inr (createTextNode [] d))"

definition ElementWrapper :: "string \<Rightarrow> dom \<Rightarrow> nat \<times> dom" where
  "ElementWrapper tag d = createElement tag d"

subsection \<open>ParentWrapper\<close>

text \<open>
  The child that one round of the loop of \<open>append\<close> hands to \<open>appendChild\<close>: a blank
  text node for \<open>null\<close> and \<open>undefined\<close>, a text node of \<open>child.toString()\<close> for
  a value that is not an object, and \<open>child.element\<close> for an object, whether it is a
  wrapper or not; \<open>appendChild\<close> throws a \<open>TypeError\<close> when that is not a node.
\<close>

definition resolve_child :: "jsval \<Rightarrow> dom \<Rightarrow> js_error + (nat \<times> dom)" where
  "resolve_child child d =
     (if eq_null child then TextNodeWrapper JNull d
      else if \<not> typeof_object child
      then (case to_string child of
              Inl e \<Rightarrow> Inl e
            | Inr s \<Rightarrow> TextNodeWrapper (JStr s) d)
      else (case element_of child of Some n \<Rightarrow> Inr (n, d) | None \<Rightarrow> Inl TypeError))"

text \<open>\<open>append(...children)\<close> (named \<open>appendW\<close> here, to keep it apart from
  the list append of HOL).\<close>

fun appendW :: "nat \<Rightarrow> jsval list \<Rightarrow> dom \<Rightarrow> js_error + (nat \<times> dom)" where
  "appendW this [] d = Inr (this, d)"
| "appendW this (child # rest) d =
     (case resolve_child child d of
        Inl e \<Rightarrow> Inl e
      | Inr (c, d1) \<Rightarrow>
          (case appendChild this c d1 of
             Inl e \<Rightarrow> Inl e
           | Inr d2 \<Rightarrow> appendW this rest d2))"

text \<open>
  \<open>clear()\<close>: while \<open>this.element.children\<close> is not empty, remove its first entry.
  Reading \<open>children\<close> of something that is not an element fails.
\<close>

lemma nth_update:
  "(xs[i := v]) ! j = (if i = j \<and> i < length xs then v else xs ! j)"
  by (cases "i < length xs") (auto simp: nth_list_update list_update_beyond)

lemma length_detach [simp]: "length (detach c d) = length d"
  by (simp add: detach_def Let_def split: option.splits)

lemma kind_detach [simp]: "kind (detach c d ! i) = kind (d ! i)"
  by (simp add: detach_def Let_def nth_update split: option.splits)

lemma is_element_detach [simp]: "is_element (detach c d) = is_element d"
  by (rule ext) (simp add: is_element_def)

lemma childNodes_detach_parent:
  "parentNode (d ! c) = Some p \<Longrightarrow> p < length d \<Longrightarrow>
   childNodes (detach c d ! p) = removeAll c (childNodes (d ! p))"
  by (simp add: detach_def Let_def nth_update)

lemma length_filter_removeAll_less:
  "c \<in> set xs \<Longrightarrow> P c \<Longrightarrow> length (filter P (removeAll c xs)) < length (filter P xs)"
proof (induction xs)
  case Nil
  then show ?case by simp
next
  case (Cons x xs)
  have le: "length (filter P (removeAll c xs)) \<le> length (filter P xs)"
    by (induction xs) auto
  show ?case
  proof (cases "x = c")
    case True
    with Cons.prems le show ?thesis by (simp add: less_Suc_eq_le)
  next
    case False
    with Cons show ?thesis by auto
  qed
qed

lemma children_removeChild_less:
  assumes "removeChild this c d = Inr d1" and "children this d = c # cs"
  shows "length (children this d1) < length (children this d)"
proof -
  from assms(1) have par: "parentNode (d ! c) = Some this" and lt: "this < length d"
    and d1: "d1 = detach c d"
    by (auto simp: removeChild_def split: if_splits)
  from assms(2) have "c \<in> set (children this d)" by simp
  then have mem: "c \<in> set (childNodes (d ! this))" and el: "is_element d c"
    by (auto simp: children_def)
  have "children this d1 = filter (is_element d) (removeAll c (childNodes (d ! this)))"
    unfolding children_def d1 using childNodes_detach_parent [OF par lt] by simp
  with length_filter_removeAll_less [OF mem, of "is_element d"] el
  show ?thesis by (simp add: children_def)
qed

function clear :: "nat \<Rightarrow> dom \<Rightarrow> js_error + (nat \<times> dom)" where
  "clear this d =
     (if \<not> is_element d this then Inl TypeError
      else (case children this d of
              [] \<Rightarrow> Inr (this, d)
            | c # _ \<Rightarrow>
                (case removeChild this c d of
                   Inl e \<Rightarrow> Inl e
                 | Inr d1 \<Rightarrow> clear this d1)))"
  by pat_completeness auto
termination
  by (relation "measure (\<lambda>(this, d). length (children this d))")
     (auto dest: children_removeChild_less)

declare clear.simps [simp del]

subsection \<open>TableMaker\<close>

text \<open>
  A heading record \<open>{name, pos, label, th}\<close>, with a string as its name. The index
  \<open>headings_by_name\<close> starts as \<open>{}\<close>; the renderer keeps its own properties
  (\<open>headings_by_name\<close>) and, because an assignment to the name \<open>__proto__\<close> sets the
  prototype of the index instead of a property, the heading that has become its
  prototype (\<open>headings_by_name_proto\<close>, \<open>None\<close> while it is \<open>Object.prototype\<close>).
\<close>

record heading =
  name :: string
  pos :: nat
  label :: nat
  th :: nat

record TableMaker =
  element :: nat
  table :: nat
  thead :: nat
  tbody :: nat
  headings_by_name :: "string \<rightharpoonup> heading"
  headings_by_name_proto :: "heading option"
  headings :: "heading list"

text \<open>\<open>this.headings_by_name[nm] = h\<close>\<close>

definition set_heading_by_name :: "string \<Rightarrow> heading \<Rightarrow> TableMaker \<Rightarrow> TableMaker" where
  "set_heading_by_name nm h this =
     (if nm = ''__proto__'' then this\<lparr>headings_by_name_proto := Some h\<rparr>
      else this\<lparr>headings_by_name := (headings_by_name this)(nm \<mapsto> h)\<rparr>)"

text \<open>The heading record that \<open>this.headings_by_name[nm]\<close> evaluates to, if it
  evaluates to one: the own property of that name, and for \<open>__proto__\<close> the prototype.
  (Any other name is looked up along the prototype chain and gives a field of a heading
  record, a method of \<open>Object.prototype\<close> or \<open>undefined\<close>.)\<close>

definition heading_by_name :: "TableMaker \<Rightarrow> string \<Rightarrow> heading option" where
  "heading_by_name this nm =
     (if nm = ''__proto__'' then headings_by_name_proto this else headings_by_name this nm)"

text \<open>The loop of the constructor over the heading descriptors \<open>{name, label}\<close>,
  from index \<open>i\<close> on.\<close>

fun TableMaker_loop ::
  "nat \<Rightarrow> nat \<Rightarrow> (string \<times> jsval) list \<Rightarrow> TableMaker \<Rightarrow> dom \<Rightarrow> js_error + (TableMaker \<times> dom)"
where
  "TableMaker_loop headrow i [] this d = Inr (this, d)"
| "TableMaker_loop headrow i ((nm, lbl) # rest) this d =
     (case TextNodeWrapper lbl d of
        Inl e \<Rightarrow> Inl e
      | Inr (th_label, d1) \<Rightarrow>
          (let (th0, d2) = ElementWrapper ''th'' d1
           in case appendW th0 [JWrapper th_label] d2 of
                Inl e \<Rightarrow> Inl e
              | Inr (th1, d3) \<Rightarrow>
                  (let h = \<lparr>name = nm, pos = i, label = th_label, th = th1\<rparr>;
                       this1 = (set_heading_by_name nm h this)\<lparr>headings := headings this @ [h]\<rparr>
                   in case appendW headrow [JWrapper th1] d3 of
                        Inl e \<Rightarrow> Inl e
                      | Inr (_, d4) \<Rightarrow> TableMaker_loop headrow (Suc i) rest this1 d4)))"

definition new_TableMaker ::
  "(string \<times> jsval) list \<Rightarrow> dom \<Rightarrow> js_error + (TableMaker \<times> dom)"
where
  "new_TableMaker hs d =
     (let (tbl, d1) = ElementWrapper ''table'' d;
          (thd, d2) = ElementWrapper ''thead'' d1;
          (tbd, d3) = ElementWrapper ''tbody'' d2;
          this = \<lparr>element = tbl, table = tbl, thead = thd, tbody = tbd,
                  headings_by_name = Map.empty, headings_by_name_proto = None,
                  headings = []\<rparr>;
          (headrow, d4) = ElementWrapper ''tr'' d3
      in case TableMaker_loop headrow 0 hs this d4 of
           Inl e \<Rightarrow> Inl e
         | Inr (this1, d5) \<Rightarrow>
             (case appendW (thead this1) [JWrapper headrow] d5 of
                Inl e \<Rightarrow> Inl e
              | Inr (_, d6) \<Rightarrow>
                  (case appendW tbl [JWrapper (thead this1), JWrapper (tbody this1)] d6 of
                     Inl e \<Rightarrow> Inl e
                   | Inr (_, d7) \<Rightarrow> Inr (this1, d7))))"

text \<open>
  A row record is the list of its own properties, looked up by name; its prototype is
  \<open>Object.prototype\<close>. \<open>row.hasOwnProperty(col.name)\<close> calls the inherited method,
  unless the record has an own property \<open>hasOwnProperty\<close>: that one is not callable,
  and the call throws. One round of the inner loop of \<open>appendRows\<close> up to the filling
  of the cell: the new \<open>td\<close>, the test, and then the dispatch on the row's value for the
  column.
\<close>

type_synonym row = "(string \<times> jsval) list"

definition hasOwnProperty :: "row \<Rightarrow> string \<Rightarrow> js_error + bool" where
  "hasOwnProperty row nm =
     (if map_of row ''hasOwnProperty'' \<noteq> None then Inl TypeError
      else Inr (map_of row nm \<noteq> None))"

definition decorated :: "jsval \<Rightarrow> bool" where
  "decorated cellvalue =
     (\<not> eq_null cellvalue \<and> typeof_object cellvalue \<and> \<not> instanceof_DOMWrapper cellvalue)"

definition appendRows_cell :: "row \<Rightarrow> heading \<Rightarrow> dom \<Rightarrow> js_error + (nat \<times> dom)" where
  "appendRows_cell row col d =
     (let (cell, d1) = ElementWrapper ''td'' d
      in case hasOwnProperty row (name col) of
           Inl e \<Rightarrow> Inl e
         | Inr True \<Rightarrow>
             (let cellvalue = (case map_of row (name col) of Some v \<Rightarrow> v | None \<Rightarrow> JUndefined)
              in if decorated cellvalue
                 then (case (if truthy (get_prop cellvalue ''classes'')
                             then (case spread (get_prop cellvalue ''classes'') of
                                     Inl e \<Rightarrow> Inl e
                                   | Inr cs \<Rightarrow> addClasses cell cs d1)
                             else Inr (cell, d1)) of
                         Inl e \<Rightarrow> Inl e
                       | Inr (_, d2) \<Rightarrow> appendW cell [get_prop cellvalue ''content''] d2)
                 else appendW cell [cellvalue] d1)
         | Inr False \<Rightarrow> appendW cell [JStr []] d1)"

text \<open>The inner loop over the headings, for the row container \<open>tr\<close>.\<close>

fun appendRows_cols :: "nat \<Rightarrow> row \<Rightarrow> heading list \<Rightarrow> dom \<Rightarrow> js_error + dom" where
  "appendRows_cols tr row [] d = Inr d"
| "appendRows_cols tr row (col # cols) d =
     (case appendRows_cell row col d of
        Inl e \<Rightarrow> Inl e
      | Inr (cell, d1) \<Rightarrow>
          (case appendW tr [JWrapper cell] d1 of
             Inl e \<Rightarrow> Inl e
           | Inr (_, d2) \<Rightarrow> appendRows_cols tr row cols d2))"

text \<open>The outer loop over the row records.\<close>

fun appendRows_loop :: "TableMaker \<Rightarrow> row list \<Rightarrow> dom \<Rightarrow> js_error + dom" where
  "appendRows_loop this [] d = Inr d"
| "appendRows_loop this (row # rows) d =
     (let (tr, d1) = ElementWrapper ''tr'' d
      in case appendRows_cols tr row (headings this) d1 of
           Inl e \<Rightarrow> Inl e
         | Inr d2 \<Rightarrow>
             (case appendW (tbody this) [JWrapper tr] d2 of
                Inl e \<Rightarrow> Inl e
              | Inr (_, d3) \<Rightarrow> appendRows_loop this rows d3))"

definition appendRows :: "TableMaker \<Rightarrow> row list \<Rightarrow> dom \<Rightarrow> js_error + (TableMaker \<times> dom)" where
  "appendRows this rows d =
     (case appendRows_loop this rows d of
        Inl e \<Rightarrow> Inl e
      | Inr d1 \<Rightarrow> Inr (this, d1))"

section \<open>CachedFile\<close>

text \<open>
  The cache with the clock and the network made explicit. One call of \<open>get\<close> reads
  the clock at \<open>now\<close>; if it fetches, the request is logged, \<open>response\<close> is what
  \<open>requestJSON\<close> settles with (\<open>Inl\<close> a rejection, \<open>Inr\<close> the decoded document),
  and \<open>now'\<close> is the clock when it has settled. \<open>cf_data = None\<close> is the initial
  \<open>null\<close>.
\<close>

record 'j CachedFile =
  cf_method :: string
  cf_uri :: string
  cache_duration :: int
  expiry :: int
  cf_data :: "'j option"

type_synonym requests = "(string \<times> string) list"

definition new_CachedFile :: "string \<Rightarrow> string \<Rightarrow> int \<Rightarrow> 'j CachedFile" where
  "new_CachedFile m u dur =
     \<lparr>cf_method = m, cf_uri = u, cache_duration = dur, expiry = 0, cf_data = None\<rparr>"

definition requestJSON ::
  "string \<Rightarrow> string \<Rightarrow> ('e + 'j) \<Rightarrow> requests \<Rightarrow> ('e + 'j) \<times> requests"
where
  "requestJSON m u response log = (response, log @ [(m, u)])"

definition get ::
  "bool \<Rightarrow> int \<Rightarrow> ('e + 'j) \<Rightarrow> int \<Rightarrow> 'j CachedFile \<times> requests \<Rightarrow>
   ('e + 'j option) \<times> ('j CachedFile \<times> requests)"
where
  "get force now response now' s =
     (let (this, log) = s
      in if force \<or> expiry this < now
         then (case requestJSON (cf_method this) (cf_uri this) response log of
                 (Inl e, log1) \<Rightarrow> (Inl e, (this, log1))
               | (Inr v, log1) \<Rightarrow>
                   (let this1 = this\<lparr>cf_data := Some v, expiry := now' + cache_duration this\<rparr>
                    in (Inr (cf_data this1), (this1, log1))))
         else (Inr (cf_data this), (this, log)))"

text \<open>A call of \<open>get\<close> performs a fetch when it adds its request to the log. \<open>gets\<close>
  runs calls one after the other, each \<open>(force, now, response, now')\<close>.\<close>

definition performs_fetch ::
  "bool \<Rightarrow> int \<Rightarrow> ('e + 'j) \<Rightarrow> int \<Rightarrow> 'j CachedFile \<times> requests \<Rightarrow> bool"
where
  "performs_fetch force now response now' s =
     (snd (snd (get force now response now' s)) =
        snd s @ [(cf_method (fst s), cf_uri (fst s))])"

fun gets ::
  "(bool \<times> int \<times> ('e + 'j) \<times> int) list \<Rightarrow> 'j CachedFile \<times> requests \<Rightarrow>
   'j CachedFile \<times> requests"
where
  "gets [] s = s"
| "gets ((force, now, response, now') # calls) s =
     gets calls (snd (get force now response now' s))"


section \<open>Notions for the statements\<close>

text \<open>
  A store is well formed when every parent reference is to a node of the store, and a
  node is \<open>rooted\<close> when its chain of parents ends (it is not part of a cycle); both
  hold of every tree of the platform.
  \<open>appended_text this s d d'\<close>: \<open>d'\<close> is \<open>d\<close> with one more node, a text node
  holding \<open>s\<close>, as the last child of \<open>this\<close>, and nothing else changed.
  \<open>appended_node this w d d'\<close>: \<open>d'\<close> is \<open>d\<close> with the node \<open>w\<close> taken out of the
  child list of its old parent and made the last child of \<open>this\<close>, and nothing else
  changed.
\<close>

definition wf_parents :: "dom \<Rightarrow> bool" where
  "wf_parents d = list_all (\<lambda>n. case parentNode n of None \<Rightarrow> True | Some p \<Rightarrow> p < length d) d"


definition appended_text :: "nat \<Rightarrow> string \<Rightarrow> dom \<Rightarrow> dom \<Rightarrow> bool" where
  "appended_text this s d d' =
     (d' = d[this := (d ! this)\<lparr>childNodes := childNodes (d ! this) @ [length d]\<rparr>] @
           [\<lparr>kind = TextNode s, classList = [], childNodes = [], parentNode = Some this\<rparr>])"

definition appended_node :: "nat \<Rightarrow> nat \<Rightarrow> dom \<Rightarrow> dom \<Rightarrow> bool" where
  "appended_node this w d d' =
     (length d' = length d \<and>
      (\<forall>i. kind (d' ! i) = kind (d ! i) \<and> classList (d' ! i) = classList (d ! i) \<and>
           parentNode (d' ! i) = (if i = w then Some this else parentNode (d ! i)) \<and>
           childNodes (d' ! i) =
             (if parentNode (d ! w) = Some i \<and> i < length d then removeAll w (childNodes (d ! i))
              else childNodes (d ! i)) @ (if i = this then [w] else [])))"

text \<open>The text of the node that \<open>append\<close> creates for a value that is \<open>null\<close>,
  \<open>undefined\<close> or not an object.\<close>

fun leaf_text :: "jsval \<Rightarrow> string" where
  "leaf_text (JBool b) = (if b then ''true'' else ''false'')"
| "leaf_text (JNum i) = int_to_string (sint i)"
| "leaf_text (JStr s) = s"
| "leaf_text _ = []"

text \<open>\<open>child_links p d\<close>: every child of \<open>p\<close> is a node of the store and has \<open>p\<close>
  as its parent.\<close>

definition child_links :: "nat \<Rightarrow> dom \<Rightarrow> bool" where
  "child_links p d =
     list_all (\<lambda>c. c < length d \<and> parentNode (d ! c) = Some p) (childNodes (d ! p))"

















text \<open>
  How a stretch of the program may change the tree. \<open>thinned M xs ys\<close>: the child list
  \<open>ys\<close> is \<open>xs\<close> without some nodes of \<open>M\<close>. \<open>frame M T d d'\<close>: from \<open>d\<close> to
  \<open>d'\<close> nodes are only added, no node changes its kind, and a node outside \<open>T\<close> keeps
  its class tokens and loses at most children that are in \<open>M\<close>. \<open>fresh d\<close> are the
  identities of the nodes still to be created. \<open>kept W d d'\<close>: from \<open>d\<close> to \<open>d'\<close>
  nodes are only added, and a node outside \<open>W\<close> keeps its parent.
\<close>

definition thinned :: "nat set \<Rightarrow> nat list \<Rightarrow> nat list \<Rightarrow> bool" where
  "thinned M xs ys = (\<exists>R. R \<subseteq> M \<and> ys = filter (\<lambda>c. c \<notin> R) xs)"

definition frame :: "nat set \<Rightarrow> nat set \<Rightarrow> dom \<Rightarrow> dom \<Rightarrow> bool" where
  "frame M T d d' =
     (length d \<le> length d' \<and>
      (\<forall>i<length d. kind (d' ! i) = kind (d ! i) \<and>
         (i \<notin> T \<longrightarrow> classList (d' ! i) = classList (d ! i) \<and>
                     thinned M (childNodes (d ! i)) (childNodes (d' ! i)))))"


definition kept :: "nat set \<Rightarrow> dom \<Rightarrow> dom \<Rightarrow> bool" where
  "kept W d d' =
     (length d \<le> length d' \<and>
      (\<forall>i<length d. i \<notin> W \<longrightarrow> parentNode (d' ! i) = parentNode (d ! i)))"



text \<open>A heading label that \<open>new TextNodeWrapper(label)\<close> takes: it is falsy, or
  converts to a string.\<close>

definition label_converts :: "jsval \<Rightarrow> bool" where
  "label_converts lbl =
     (\<not> truthy lbl \<or> (case to_string lbl of Inl e \<Rightarrow> False | Inr s \<Rightarrow> True))"

text \<open>
  An example: the table with the headings \<open>t\<close> and \<open>v\<close>, built in a tree that holds
  one element \<open>b\<close> (node 0) already, and three row records. The first has no \<open>v\<close>;
  the second gives \<open>v\<close> as a decorated record with two class names and an empty one
  and \<open>t\<close> as an array, with its keys in the other order; the third hands over the wrapper of node 0. \<open>demo_final\<close> is the tree
  after \<open>appendRows\<close>.
\<close>

definition demo_headings :: "(string \<times> jsval) list" where
  "demo_headings = [(''t'', JStr ''Time''), (''v'', JStr ''Value'')]"

definition demo_table :: TableMaker where
  "demo_table =
     \<lparr>element = 1, table = 1, thead = 2, tbody = 3,
      headings_by_name =
        [''t'' \<mapsto> \<lparr>name = ''t'', pos = 0, label = 5, th = 6\<rparr>,
         ''v'' \<mapsto> \<lparr>name = ''v'', pos = 1, label = 7, th = 8\<rparr>],
      headings_by_name_proto = None,
      headings =
        [\<lparr>name = ''t'', pos = 0, label = 5, th = 6\<rparr>,
         \<lparr>name = ''v'', pos = 1, label = 7, th = 8\<rparr>]\<rparr>"

definition demo_dom :: dom where
  "demo_dom =
     [\<lparr>kind = ElementNode ''b'', classList = [], childNodes = [], parentNode = None\<rparr>,
      \<lparr>kind = ElementNode ''table'', classList = [], childNodes = [2, 3], parentNode = None\<rparr>,
      \<lparr>kind = ElementNode ''thead'', classList = [], childNodes = [4], parentNode = Some 1\<rparr>,
      \<lparr>kind = ElementNode ''tbody'', classList = [], childNodes = [], parentNode = Some 1\<rparr>,
      \<lparr>kind = ElementNode ''tr'', classList = [], childNodes = [6, 8], parentNode = Some 2\<rparr>,
      \<lparr>kind = TextNode ''Time'', classList = [], childNodes = [], parentNode = Some 6\<rparr>,
      \<lparr>kind = ElementNode ''th'', classList = [], childNodes = [5], parentNode = Some 4\<rparr>,
      \<lparr>kind = TextNode ''Value'', classList = [], childNodes = [], parentNode = Some 8\<rparr>,
      \<lparr>kind = ElementNode ''th'', classList = [], childNodes = [7], parentNode = Some 4\<rparr>]"




section \<open>The cache\<close>

lemma get_fetch:
  "force \<or> expiry this < now \<Longrightarrow>
   get force now (Inr v) now' (this, log) =
     (Inr (Some v), (this\<lparr>cf_data := Some v, expiry := now' + cache_duration this\<rparr>,
        log @ [(cf_method this, cf_uri this)]))"
  by (simp add: get_def requestJSON_def)

text \<open>
  C8 (as the code has it). \<open>get\<close> fetches exactly when \<open>force\<close> holds or the
  stored expiry is before the clock; the expiry is 0 in a new cache and, after a fetch
  that settled when the clock read \<open>tf\<close>, it is \<open>tf\<close> plus the cache duration. So, let
  \<open>this\<close> be the cache after a call of \<open>get\<close> that fetched \<open>v\<close> and settled at
  \<open>tf\<close>: a later call at \<open>now\<close> performs a fetch exactly when \<open>force\<close> holds or
  the age \<open>now - tf\<close> of the value exceeds the cache duration, and otherwise returns
  \<open>v\<close> and leaves cache and network alone. A cache that has never fetched does so
  exactly when \<open>force\<close> holds or the clock reads more than 0. In particular, with a
  duration of 1000 and a clock that reads \<open>T > 0\<close> at the first call (each fetch
  taking \<open>l < 500\<close>), the calls at \<open>T\<close> and \<open>T + 500\<close> perform one fetch between
  them, and a third call at \<open>T + 1500\<close> performs the second.
\<close>

theorem get_refetches_when_forced_or_expired:
  fixes this0 :: "'j CachedFile" and response :: "'e + 'j"
  assumes "f0 \<or> expiry this0 < t0"
    and "get f0 t0 (Inr v :: 'e + 'j) tf (this0, log0) = (r0, (this, log))"
  shows "(performs_fetch force now response now' (this, log) \<longleftrightarrow>
            force \<or> cache_duration this < now - tf) \<and>
         (\<not> performs_fetch force now response now' (this, log) \<longrightarrow>
            get force now response now' (this, log) = (Inr (Some v), (this, log))) \<and>
         (performs_fetch force now response now' (new_CachedFile m u dur, log) \<longleftrightarrow>
            force \<or> 0 < now) \<and>
         (\<forall>T l a b c. 0 < T \<and> 0 \<le> l \<and> l < 500 \<longrightarrow>
            length (snd (gets [(False, T, Inr a :: 'e + 'j, T + l),
                               (False, T + 500, Inr b, T + 500 + l)]
                      (new_CachedFile m u 1000, []))) = 1 \<and>
            length (snd (gets [(False, T, Inr a, T + l), (False, T + 500, Inr b, T + 500 + l),
                               (False, T + 1500, Inr c :: 'e + 'j, T + 1500 + l)]
                      (new_CachedFile m u 1000, []))) = 2)"
proof -
  from assms have st: "this = this0\<lparr>cf_data := Some v, expiry := tf + cache_duration this0\<rparr>"
    by (simp add: get_fetch)
  have A: "performs_fetch force now response now' (this, log) \<longleftrightarrow>
            force \<or> cache_duration this < now - tf"
    unfolding st by (cases response) (auto simp: performs_fetch_def get_def requestJSON_def)
  have B: "\<not> performs_fetch force now response now' (this, log) \<longrightarrow>
            get force now response now' (this, log) = (Inr (Some v), (this, log))"
    unfolding A unfolding st by (simp add: get_def)
  have C: "performs_fetch force now response now' (new_CachedFile m u dur, log) \<longleftrightarrow>
            force \<or> 0 < now"
    by (cases response)
       (auto simp: performs_fetch_def get_def requestJSON_def new_CachedFile_def)
  have D: "\<forall>T l a b c. 0 < T \<and> 0 \<le> l \<and> l < 500 \<longrightarrow>
            length (snd (gets [(False, T, Inr a :: 'e + 'j, T + l),
                               (False, T + 500, Inr b, T + 500 + l)]
                      (new_CachedFile m u 1000, []))) = 1 \<and>
            length (snd (gets [(False, T, Inr a, T + l), (False, T + 500, Inr b, T + 500 + l),
                               (False, T + 1500, Inr c :: 'e + 'j, T + 1500 + l)]
                      (new_CachedFile m u 1000, []))) = 2"
    by (simp add: new_CachedFile_def get_def requestJSON_def)
  from A B C D show ?thesis by blast
qed

theorem get_refetches_witness:
  "expiry (new_CachedFile ''GET'' ''data.json'' 1000 :: nat CachedFile) < 5 \<and>
   performs_fetch False 1006 (Inr 8 :: unit + nat) 1006
     (\<lparr>cf_method = ''GET'', cf_uri = ''data.json'', cache_duration = 1000, expiry = 1005,
        cf_data = Some 7\<rparr>, [(''GET'', ''data.json'')]) \<and>
   \<not> performs_fetch False 1005 (Inr 8 :: unit + nat) 1005
     (\<lparr>cf_method = ''GET'', cf_uri = ''data.json'', cache_duration = 1000, expiry = 1005,
        cf_data = Some 7\<rparr>, [(''GET'', ''data.json'')]) \<and>
   get False 1005 (Inr 8 :: unit + nat) 1005
     (\<lparr>cf_method = ''GET'', cf_uri = ''data.json'', cache_duration = 1000, expiry = 1005,
        cf_data = Some 7\<rparr>, [(''GET'', ''data.json'')]) =
     (Inr (Some 7),
      (\<lparr>cf_method = ''GET'', cf_uri = ''data.json'', cache_duration = 1000, expiry = 1005,
         cf_data = Some 7\<rparr>, [(''GET'', ''data.json'')])) \<and>
   length (snd (gets [(False, 1, Inr 7 :: unit + nat, 1), (False, 501, Inr 8, 501),
                      (False, 1501, Inr 9, 1501)]
                  (new_CachedFile ''GET'' ''data.json'' 1000, []))) = 2"
proof -
  have h1: "False \<or> expiry (new_CachedFile ''GET'' ''data.json'' 1000 :: nat CachedFile) < 5"
    by (simp add: new_CachedFile_def)
  have h2: "get False 5 (Inr 7 :: unit + nat) 5 (new_CachedFile ''GET'' ''data.json'' 1000, []) =
      (Inr (Some 7),
       (\<lparr>cf_method = ''GET'', cf_uri = ''data.json'', cache_duration = 1000, expiry = 1005,
          cf_data = Some 7\<rparr>, [(''GET'', ''data.json'')]))"
    by (simp add: new_CachedFile_def get_def requestJSON_def)
  note t1 = get_refetches_when_forced_or_expired
    [OF h1 h2, of False 1006 "Inr 8" 1006 "''GET''" "''data.json''" 1000]
  note t2 = get_refetches_when_forced_or_expired
    [OF h1 h2, of False 1005 "Inr 8" 1005 "''GET''" "''data.json''" 1000]
  from t1 have a: "performs_fetch False 1006 (Inr 8 :: unit + nat) 1006
     (\<lparr>cf_method = ''GET'', cf_uri = ''data.json'', cache_duration = 1000, expiry = 1005,
        cf_data = Some 7\<rparr>, [(''GET'', ''data.json'')])" by simp
  from t2 have b: "\<not> performs_fetch False 1005 (Inr 8 :: unit + nat) 1005
     (\<lparr>cf_method = ''GET'', cf_uri = ''data.json'', cache_duration = 1000, expiry = 1005,
        cf_data = Some 7\<rparr>, [(''GET'', ''data.json'')])" by simp
  from t2 b have c: "get False 1005 (Inr 8 :: unit + nat) 1005
     (\<lparr>cf_method = ''GET'', cf_uri = ''data.json'', cache_duration = 1000, expiry = 1005,
        cf_data = Some 7\<rparr>, [(''GET'', ''data.json'')]) =
     (Inr (Some 7),
      (\<lparr>cf_method = ''GET'', cf_uri = ''data.json'', cache_duration = 1000, expiry = 1005,
         cf_data = Some 7\<rparr>, [(''GET'', ''data.json'')]))" by blast
  from t1 have "\<forall>T l a b c. 0 < T \<and> 0 \<le> l \<and> l < 500 \<longrightarrow>
            length (snd (gets [(False, T, Inr a, T + l), (False, T + 500, Inr b, T + 500 + l),
                               (False, T + 1500, Inr c :: unit + nat, T + 1500 + l)]
                      (new_CachedFile ''GET'' ''data.json'' 1000, []))) = 2" by blast
  from this [rule_format, of 1 0 7 8 9] have d: "length (snd (gets [(False, 1, Inr 7 :: unit + nat, 1), (False, 501, Inr 8, 501),
                      (False, 1501, Inr 9, 1501)]
                  (new_CachedFile ''GET'' ''data.json'' 1000, []))) = 2" by simp
  from h1 a b c d show ?thesis by simp
qed

text \<open>
  With the clock at 0 for the first call, as in the example of C8: the new cache has
  expiry 0, which is not before 0, so the call at 0 does not fetch and returns the
  initial \<open>null\<close>. The call at 500 fetches, and the call at 1500 finds the expiry
  1500 and does not: one request in all, not two.
\<close>

theorem get_at_clock_zero_counterexample:
  "\<not> performs_fetch False 0 (Inr 7 :: unit + nat) 0
      (new_CachedFile ''GET'' ''data.json'' 1000, []) \<and>
   get False 0 (Inr 7 :: unit + nat) 0 (new_CachedFile ''GET'' ''data.json'' 1000, []) =
     (Inr None, (new_CachedFile ''GET'' ''data.json'' 1000, [])) \<and>
   snd (gets [(False, 0, Inr 7 :: unit + nat, 0), (False, 500, Inr 8, 500),
              (False, 1500, Inr 9, 1500)]
          (new_CachedFile ''GET'' ''data.json'' 1000, [])) = [(''GET'', ''data.json'')]"
  by (simp add: performs_fetch_def get_def requestJSON_def new_CachedFile_def)


text \<open>
  C9. When a call of \<open>get\<close> fetches and the fetch rejects with \<open>e\<close>, the call
  rejects with the same \<open>e\<close>, and the cache is the one it was before: neither the
  cached value nor the expiry has changed. The request itself was made.
\<close>

theorem get_rejection_leaves_state:
  assumes "force \<or> expiry this < now"
  shows "get force now (Inl e) now' (this, log) =
           (Inl e, (this, log @ [(cf_method this, cf_uri this)]))"
  using assms by (simp add: get_def requestJSON_def)

theorem get_rejection_witness:
  "expiry \<lparr>cf_method = ''GET'', cf_uri = ''data.json'', cache_duration = 1000, expiry = 1005,
        cf_data = Some (7::nat)\<rparr> < 2000 \<and>
   get False 2000 (Inl ''offline'') 2000
     (\<lparr>cf_method = ''GET'', cf_uri = ''data.json'', cache_duration = 1000, expiry = 1005,
        cf_data = Some (7::nat)\<rparr>, [(''GET'', ''data.json'')]) =
   (Inl ''offline'',
    (\<lparr>cf_method = ''GET'', cf_uri = ''data.json'', cache_duration = 1000, expiry = 1005,
        cf_data = Some 7\<rparr>, [(''GET'', ''data.json''), (''GET'', ''data.json'')]))"
  using get_rejection_leaves_state [of False "\<lparr>cf_method = ''GET'', cf_uri = ''data.json'', cache_duration = 1000, expiry = 1005,
        cf_data = Some (7::nat)\<rparr>" 2000 "''offline''" 2000 "[(''GET'', ''data.json'')]"]
  by simp
section \<open>The document tree\<close>

lemma childNodes_detach:
  "childNodes (detach c d ! i) =
     (if parentNode (d ! c) = Some i \<and> i < length d then removeAll c (childNodes (d ! i))
      else childNodes (d ! i))"
  by (auto simp: detach_def Let_def nth_update split: option.splits)

lemma classList_detach [simp]: "classList (detach c d ! i) = classList (d ! i)"
  by (simp add: detach_def Let_def nth_update split: option.splits)

lemma parentNode_detach:
  "parentNode (detach c d ! i) =
     (if i = c \<and> c < length d then None else parentNode (d ! i))"
  by (auto simp: detach_def Let_def nth_update split: option.splits)

lemma length_insert_last [simp]: "length (insert_last p c d) = length d"
  by (simp add: insert_last_def Let_def)

lemma kind_insert_last [simp]: "kind (insert_last p c d ! i) = kind (d ! i)"
  by (simp add: insert_last_def Let_def nth_update)

lemma classList_insert_last [simp]: "classList (insert_last p c d ! i) = classList (d ! i)"
  by (simp add: insert_last_def Let_def nth_update)

lemma childNodes_insert_last:
  "childNodes (insert_last p c d ! i) =
     (if i = p \<and> p < length d then childNodes (d ! i) @ [c] else childNodes (d ! i))"
  by (auto simp: insert_last_def Let_def nth_update)

lemma parentNode_insert_last:
  "parentNode (insert_last p c d ! i) =
     (if i = c \<and> c < length d then Some p else parentNode (d ! i))"
  by (auto simp: insert_last_def Let_def nth_update)

lemma appendChild_Inr:
  assumes "appendChild p c d = Inr d'"
  shows "length d' = length d" and "p < length d" and "c < length d" and "c \<noteq> p"
    and "is_element d p"
    and "kind (d' ! i) = kind (d ! i)"
    and "classList (d' ! i) = classList (d ! i)"
    and "childNodes (d' ! i) =
           (if parentNode (d ! c) = Some i \<and> i < length d then removeAll c (childNodes (d ! i))
            else childNodes (d ! i)) @ (if i = p then [c] else [])"
    and "parentNode (d' ! i) = (if i = c then Some p else parentNode (d ! i))"
proof -
  from assms have d': "d' = insert_last p c (detach c d)"
    and p: "p < length d" and c: "c < length d" and ne: "c \<noteq> p" and el: "is_element d p"
    by (auto simp: appendChild_def inclusive_ancestor_def split: if_splits)
  show "length d' = length d" using d' by simp
  show "p < length d" by fact
  show "c < length d" by fact
  show "c \<noteq> p" by fact
  show "is_element d p" by fact
  show "kind (d' ! i) = kind (d ! i)" "classList (d' ! i) = classList (d ! i)"
    using d' by simp_all
  show "childNodes (d' ! i) =
           (if parentNode (d ! c) = Some i \<and> i < length d then removeAll c (childNodes (d ! i))
            else childNodes (d ! i)) @ (if i = p then [c] else [])"
    using d' p by (simp add: childNodes_insert_last childNodes_detach)
  show "parentNode (d' ! i) = (if i = c then Some p else parentNode (d ! i))"
    using d' c by (simp add: parentNode_insert_last parentNode_detach)
qed

lemma wf_parentsD:
  "wf_parents d \<Longrightarrow> n < length d \<Longrightarrow> parentNode (d ! n) = Some p \<Longrightarrow> p < length d"
  by (auto simp: wf_parents_def list_all_length split: option.splits)

lemma ancestors_bound:
  "wf_parents d \<Longrightarrow> a \<in> set (ancestors d k n) \<Longrightarrow> a < length d"
proof (induction k arbitrary: n)
  case 0
  then show ?case by simp
next
  case (Suc k)
  from Suc.prems(2) have "\<exists>p. n < length d \<and> parentNode (d ! n) = Some p \<and>
      (a = p \<or> a \<in> set (ancestors d k p))"
    by (cases "n < length d"; cases "parentNode (d ! n)") auto
  then obtain p where n: "n < length d" and p: "parentNode (d ! n) = Some p"
    and a: "a = p \<or> a \<in> set (ancestors d k p)"
    by blast
  from a show ?case
  proof
    assume "a = p"
    with wf_parentsD [OF Suc.prems(1) n p] show ?thesis by simp
  next
    assume "a \<in> set (ancestors d k p)"
    with Suc.IH [OF Suc.prems(1)] show ?thesis .
  qed
qed

lemma ancestors_append:
  "wf_parents d \<Longrightarrow> n < length d \<Longrightarrow> ancestors (d @ xs) k n = ancestors d k n"
proof (induction k arbitrary: n)
  case 0
  then show ?case by simp
next
  case (Suc k)
  show ?case
  proof (cases "parentNode (d ! n)")
    case None
    with Suc.prems show ?thesis by (simp add: nth_append)
  next
    case (Some p)
    with wf_parentsD [OF Suc.prems this] Suc.IH [OF Suc.prems(1), of p] Suc.prems
    show ?thesis by (simp add: nth_append)
  qed
qed

lemma appendChild_fresh:
  assumes "wf_parents d" and "is_element d p"
  shows "\<exists>d'. appendChild p (length d) (d @ [x]) = Inr d'"
proof -
  from assms(2) have p: "p < length d" by (simp add: is_element_def)
  have "ancestors (d @ [x]) k p = ancestors d k p" for k
    by (rule ancestors_append [OF assms(1) p])
  moreover have "length d \<notin> set (ancestors d k p)" for k
    using ancestors_bound [OF assms(1)] by blast
  ultimately have "\<not> inclusive_ancestor (d @ [x]) (length d) p"
    using p unfolding inclusive_ancestor_def by (simp del: ancestors.simps)
  with assms p show ?thesis
    by (simp add: appendChild_def is_element_def nth_append)
qed

lemma ancestors_root: "parentNode (d ! p) = None \<Longrightarrow> ancestors d k p = []"
  by (cases k) simp_all

lemma detach_root: "parentNode (d ! c) = None \<Longrightarrow> detach c d = d"
  by (simp add: detach_def)

lemma appendChild_root:
  assumes "is_element d p" and "parentNode (d ! p) = None" and "c < length d" and "c \<noteq> p"
    and "parentNode (d ! c) = None"
  shows "appendChild p c d = Inr (insert_last p c d)"
  using assms
  by (simp add: appendChild_def inclusive_ancestor_def ancestors_root detach_root is_element_def)

lemma insert_last_other: "n \<noteq> p \<Longrightarrow> n \<noteq> c \<Longrightarrow> insert_last p c d ! n = d ! n"
  by (simp add: insert_last_def Let_def)

lemma is_element_insert_last [simp]: "is_element (insert_last p c d) = is_element d"
  by (rule ext) (simp add: is_element_def)


section \<open>append\<close>

lemma leaf_text_to_string:
  "\<not> eq_null v \<Longrightarrow> \<not> typeof_object v \<Longrightarrow> to_string v = Inr (leaf_text v)"
  by (cases v) simp_all

lemma resolve_child_text:
  "eq_null v \<or> \<not> typeof_object v \<Longrightarrow> resolve_child v d =
     Inr (length d, d @ [\<lparr>kind = TextNode (leaf_text v), classList = [], childNodes = [],
       parentNode = None\<rparr>])"
  by (cases v) (simp_all add: resolve_child_def TextNodeWrapper_def createTextNode_def)

lemma resolve_child_node:
  "element_of v = Some w \<Longrightarrow> resolve_child v d = Inr (w, d)"
  by (cases v) (simp_all add: resolve_child_def)

lemma resolve_child_fails:
  "\<not> eq_null v \<Longrightarrow> typeof_object v \<Longrightarrow> element_of v = None \<Longrightarrow>
   resolve_child v d = Inl TypeError"
  by (simp add: resolve_child_def)

lemma appendW_single:
  "appendW this [v] d =
     (case resolve_child v d of
        Inl e \<Rightarrow> Inl e
      | Inr (c, d1) \<Rightarrow> (case appendChild this c d1 of Inl e \<Rightarrow> Inl e | Inr d2 \<Rightarrow> Inr (this, d2)))"
  by (simp split: sum.splits prod.splits)

lemma appendW_this: "appendW this vs d = Inr (r, d') \<Longrightarrow> r = this"
  by (induction vs arbitrary: d) (auto split: sum.splits prod.splits)

lemma appendW_append:
  "appendW this (xs @ ys) d =
     (case appendW this xs d of Inl e \<Rightarrow> Inl e | Inr (w, d1) \<Rightarrow> appendW w ys d1)"
proof (induction xs arbitrary: d)
  case Nil
  show ?case by simp
next
  case (Cons x xs)
  show ?case by (simp add: Cons.IH split: sum.splits prod.splits)
qed

lemma appendW_leaf_Inr:
  assumes "appendW this [v] d = Inr (r, d')" and "eq_null v \<or> \<not> typeof_object v"
  shows "appendChild this (length d)
      (d @ [\<lparr>kind = TextNode (leaf_text v), classList = [], childNodes = [],
        parentNode = None\<rparr>]) = Inr d'"
  using assms by (simp add: appendW_single resolve_child_text split: sum.splits)

lemma appendW_node_Inr:
  assumes "appendW this [v] d = Inr (r, d')" and "element_of v = Some w"
  shows "appendChild this w d = Inr d'"
  using assms by (simp add: appendW_single resolve_child_node split: sum.splits)


lemma appendW_fails:
  "\<not> eq_null v \<Longrightarrow> typeof_object v \<Longrightarrow> element_of v = None \<Longrightarrow>
   appendW this [v] d = Inl TypeError"
  by (simp add: appendW_single resolve_child_fails)

lemma appendW_text:
  assumes "appendW this [v] d = Inr (r, d')" and "eq_null v \<or> \<not> typeof_object v"
  shows "appended_text this (leaf_text v) d d'"
proof -
  let ?x = "\<lparr>kind = TextNode (leaf_text v), classList = [], childNodes = [],
    parentNode = None\<rparr>"
  have ac: "appendChild this (length d) (d @ [?x]) = Inr d'"
    by (rule appendW_leaf_Inr [OF assms])
  note f = appendChild_Inr [OF ac]
  from f(2,4) have lt: "this < length d" by simp
  from ac have "d' = insert_last this (length d) (detach (length d) (d @ [?x]))"
    by (simp add: appendChild_def split: if_splits)
  also have "detach (length d) (d @ [?x]) = d @ [?x]" by (simp add: detach_def)
  finally show ?thesis
    unfolding appended_text_def using lt
    by (simp add: insert_last_def nth_append list_update_append)
qed

lemma appendW_node:
  assumes "appendW this [v] d = Inr (r, d')" and "element_of v = Some w"
  shows "appended_node this w d d'"
proof -
  have ac: "appendChild this w d = Inr d'" by (rule appendW_node_Inr [OF assms])
  note f = appendChild_Inr [OF ac]
  show ?thesis
    unfolding appended_node_def using f(1) by (simp add: f(6-9))
qed

lemma appendW_fresh_total:
  assumes "wf_parents d" and "is_element d this" and "eq_null v \<or> \<not> typeof_object v"
  shows "\<exists>d'. appendW this [v] d = Inr (this, d')"
proof -
  let ?x = "\<lparr>kind = TextNode (leaf_text v), classList = [], childNodes = [],
    parentNode = None\<rparr>"
  from appendChild_fresh [OF assms(1,2), of ?x] obtain d' where
    ac: "appendChild this (length d) (d @ [?x]) = Inr d'" by blast
  have "appendW this [v] d = Inr (this, d')"
    unfolding appendW_single resolve_child_text [OF assms(3)] by (simp add: ac)
  then show ?thesis ..
qed

lemma appendW_node_total:
  assumes "element_of v = Some w" and "is_element d this" and "w < length d"
    and "\<not> inclusive_ancestor d w this"
  shows "\<exists>d'. appendW this [v] d = Inr (this, d')"
  unfolding appendW_single resolve_child_node [OF assms(1)]
  using assms(2-4) by (simp add: appendChild_def is_element_def)

lemma appendW_root:
  assumes "is_element d p" and "parentNode (d ! p) = None" and "c < length d" and "c \<noteq> p"
    and "parentNode (d ! c) = None"
  shows "appendW p [JWrapper c] d = Inr (p, insert_last p c d)"
  using appendChild_root [OF assms] by (simp add: resolve_child_def)


text \<open>
  C2 (as the code has it). \<open>append\<close> handles its arguments one after the other, in
  argument order, and returns the container wrapper. Each argument is resolved by the
  tests of the code: \<open>null\<close> and \<open>undefined\<close> give a new empty text node; a value
  that is not an object (a boolean, a number, a string) gives a new text node holding
  its string conversion; any other value is an object, and what is appended is its
  \<open>element\<close>, whether the object is a wrapper or not: that node leaves the child list
  of its old parent. An array or a record whose \<open>element\<close> is no node makes the call
  throw a \<open>TypeError\<close>. The resolved node becomes the last child of the container and
  nothing else changes. In a well-formed store, on an element, the call returns for
  every argument that gives a text node, and it returns for a node that exists and is
  neither the container nor one of its ancestors.
\<close>

theorem appendW_child_resolution:
  "appendW this [] d = Inr (this, d) \<and>
   appendW this (xs @ ys) d =
     (case appendW this xs d of Inl e \<Rightarrow> Inl e | Inr (w, d1) \<Rightarrow> appendW w ys d1) \<and>
   (\<forall>r d'. appendW this xs d = Inr (r, d') \<longrightarrow> r = this) \<and>
   (\<forall>r d'. appendW this [v] d = Inr (r, d') \<longrightarrow>
      (case v of
         JUndefined \<Rightarrow> appended_text this [] d d'
       | JNull \<Rightarrow> appended_text this [] d d'
       | JBool b \<Rightarrow> appended_text this (if b then ''true'' else ''false'') d d'
       | JNum i \<Rightarrow> appended_text this (int_to_string (sint i)) d d'
       | JStr s \<Rightarrow> appended_text this s d d'
       | JWrapper w \<Rightarrow> appended_node this w d d'
       | JHolder w fs \<Rightarrow> appended_node this w d d'
       | JArray vs \<Rightarrow> False
       | JObject fs \<Rightarrow> False)) \<and>
   (\<not> eq_null v \<and> typeof_object v \<and> element_of v = None \<longrightarrow>
      appendW this [v] d = Inl TypeError) \<and>
   (wf_parents d \<and> is_element d this \<and> (eq_null v \<or> \<not> typeof_object v) \<longrightarrow>
      (\<exists>d'. appendW this [v] d = Inr (this, d'))) \<and>
   (is_element d this \<and> element_of v = Some n \<and> n < length d \<and>
    \<not> inclusive_ancestor d n this \<longrightarrow>
      (\<exists>d'. appendW this [v] d = Inr (this, d')))"
proof -
  have A: "appendW this [] d = Inr (this, d)" by simp
  have B: "appendW this (xs @ ys) d =
     (case appendW this xs d of Inl e \<Rightarrow> Inl e | Inr (w, d1) \<Rightarrow> appendW w ys d1)"
    by (rule appendW_append)
  have C: "\<forall>r d'. appendW this xs d = Inr (r, d') \<longrightarrow> r = this"
    by (blast dest: appendW_this)
  have D: "case v of
         JUndefined \<Rightarrow> appended_text this [] d d'
       | JNull \<Rightarrow> appended_text this [] d d'
       | JBool b \<Rightarrow> appended_text this (if b then ''true'' else ''false'') d d'
       | JNum i \<Rightarrow> appended_text this (int_to_string (sint i)) d d'
       | JStr s \<Rightarrow> appended_text this s d d'
       | JWrapper w \<Rightarrow> appended_node this w d d'
       | JHolder w fs \<Rightarrow> appended_node this w d d'
       | JArray vs \<Rightarrow> False
       | JObject fs \<Rightarrow> False"
    if a: "appendW this [v] d = Inr (r, d')" for r d'
  proof (cases v)
    case (JWrapper w)
    with appendW_node [OF a, of w] show ?thesis by simp
  next
    case (JHolder w fs)
    with appendW_node [OF a, of w] show ?thesis by simp
  next
    case (JArray vs)
    then have "appendW this [v] d = Inl TypeError" by (intro appendW_fails) simp_all
    with a show ?thesis by (simp del: appendW.simps)
  next
    case (JObject fs)
    then have "appendW this [v] d = Inl TypeError" by (intro appendW_fails) simp_all
    with a show ?thesis by (simp del: appendW.simps)
  next
    case JUndefined
    with appendW_text [OF a] show ?thesis by simp
  next
    case JNull
    with appendW_text [OF a] show ?thesis by simp
  next
    case (JBool b)
    with appendW_text [OF a] show ?thesis by simp
  next
    case (JNum i)
    with appendW_text [OF a] show ?thesis by simp
  next
    case (JStr s)
    with appendW_text [OF a] show ?thesis by simp
  qed
  have E: "\<not> eq_null v \<and> typeof_object v \<and> element_of v = None \<longrightarrow>
      appendW this [v] d = Inl TypeError"
    using appendW_fails [of v this d] by blast
  have F: "wf_parents d \<and> is_element d this \<and> (eq_null v \<or> \<not> typeof_object v) \<longrightarrow>
      (\<exists>d'. appendW this [v] d = Inr (this, d'))"
    using appendW_fresh_total [of d this v] by blast
  have G: "is_element d this \<and> element_of v = Some n \<and> n < length d \<and>
    \<not> inclusive_ancestor d n this \<longrightarrow>
      (\<exists>d'. appendW this [v] d = Inr (this, d'))"
    using appendW_node_total [of v n d this] by blast
  from D have D': "\<forall>r d'. appendW this [v] d = Inr (r, d') \<longrightarrow>
      (case v of
         JUndefined \<Rightarrow> appended_text this [] d d'
       | JNull \<Rightarrow> appended_text this [] d d'
       | JBool b \<Rightarrow> appended_text this (if b then ''true'' else ''false'') d d'
       | JNum i \<Rightarrow> appended_text this (int_to_string (sint i)) d d'
       | JStr s \<Rightarrow> appended_text this s d d'
       | JWrapper w \<Rightarrow> appended_node this w d d'
       | JHolder w fs \<Rightarrow> appended_node this w d d'
       | JArray vs \<Rightarrow> False
       | JObject fs \<Rightarrow> False)" by blast
  show ?thesis
    apply (rule conjI, rule A)
    apply (rule conjI, rule B)
    apply (rule conjI, rule C)
    apply (rule conjI, rule D')
    apply (rule conjI, rule E)
    apply (rule conjI, rule F)
    apply (rule G)
    done
qed

theorem appendW_child_resolution_witness:
  "wf_parents
     [\<lparr>kind = ElementNode ''div'', classList = [], childNodes = [1], parentNode = None\<rparr>,
      \<lparr>kind = ElementNode ''b'', classList = [], childNodes = [], parentNode = Some 0\<rparr>,
      \<lparr>kind = ElementNode ''p'', classList = [], childNodes = [], parentNode = None\<rparr>] \<and>
   is_element
     [\<lparr>kind = ElementNode ''div'', classList = [], childNodes = [1], parentNode = None\<rparr>,
      \<lparr>kind = ElementNode ''b'', classList = [], childNodes = [], parentNode = Some 0\<rparr>,
      \<lparr>kind = ElementNode ''p'', classList = [], childNodes = [], parentNode = None\<rparr>] 2 \<and>
   \<not> inclusive_ancestor
     [\<lparr>kind = ElementNode ''div'', classList = [], childNodes = [1], parentNode = None\<rparr>,
      \<lparr>kind = ElementNode ''b'', classList = [], childNodes = [], parentNode = Some 0\<rparr>,
      \<lparr>kind = ElementNode ''p'', classList = [], childNodes = [], parentNode = None\<rparr>] 1 2 \<and>
   appendW 2 [JNum 42, JHolder 1 []]
     [\<lparr>kind = ElementNode ''div'', classList = [], childNodes = [1], parentNode = None\<rparr>,
      \<lparr>kind = ElementNode ''b'', classList = [], childNodes = [], parentNode = Some 0\<rparr>,
      \<lparr>kind = ElementNode ''p'', classList = [], childNodes = [], parentNode = None\<rparr>] =
     Inr (2,
       [\<lparr>kind = ElementNode ''div'', classList = [], childNodes = [], parentNode = None\<rparr>,
        \<lparr>kind = ElementNode ''b'', classList = [], childNodes = [], parentNode = Some 2\<rparr>,
        \<lparr>kind = ElementNode ''p'', classList = [], childNodes = [3, 1], parentNode = None\<rparr>,
        \<lparr>kind = TextNode ''42'', classList = [], childNodes = [], parentNode = Some 2\<rparr>]) \<and>
   appended_text 2 ''42''
     [\<lparr>kind = ElementNode ''div'', classList = [], childNodes = [1], parentNode = None\<rparr>,
      \<lparr>kind = ElementNode ''b'', classList = [], childNodes = [], parentNode = Some 0\<rparr>,
      \<lparr>kind = ElementNode ''p'', classList = [], childNodes = [], parentNode = None\<rparr>]
     [\<lparr>kind = ElementNode ''div'', classList = [], childNodes = [1], parentNode = None\<rparr>,
      \<lparr>kind = ElementNode ''b'', classList = [], childNodes = [], parentNode = Some 0\<rparr>,
      \<lparr>kind = ElementNode ''p'', classList = [], childNodes = [3], parentNode = None\<rparr>,
      \<lparr>kind = TextNode ''42'', classList = [], childNodes = [], parentNode = Some 2\<rparr>] \<and>
   appended_node 2 1
     [\<lparr>kind = ElementNode ''div'', classList = [], childNodes = [1], parentNode = None\<rparr>,
      \<lparr>kind = ElementNode ''b'', classList = [], childNodes = [], parentNode = Some 0\<rparr>,
      \<lparr>kind = ElementNode ''p'', classList = [], childNodes = [], parentNode = None\<rparr>]
     [\<lparr>kind = ElementNode ''div'', classList = [], childNodes = [], parentNode = None\<rparr>,
      \<lparr>kind = ElementNode ''b'', classList = [], childNodes = [], parentNode = Some 2\<rparr>,
      \<lparr>kind = ElementNode ''p'', classList = [], childNodes = [1], parentNode = None\<rparr>] \<and>
   (\<exists>d'. appendW 2 [JWrapper 1]
     [\<lparr>kind = ElementNode ''div'', classList = [], childNodes = [1], parentNode = None\<rparr>,
      \<lparr>kind = ElementNode ''b'', classList = [], childNodes = [], parentNode = Some 0\<rparr>,
      \<lparr>kind = ElementNode ''p'', classList = [], childNodes = [], parentNode = None\<rparr>] =
      Inr (2, d')) \<and>
   appendW 2 [JObject [(''element'', JNum 1)]]
     [\<lparr>kind = ElementNode ''div'', classList = [], childNodes = [1], parentNode = None\<rparr>,
      \<lparr>kind = ElementNode ''b'', classList = [], childNodes = [], parentNode = Some 0\<rparr>,
      \<lparr>kind = ElementNode ''p'', classList = [], childNodes = [], parentNode = None\<rparr>] =
     Inl TypeError"
proof -
  let ?d = "[\<lparr>kind = ElementNode ''div'', classList = [], childNodes = [1], parentNode = None\<rparr>,
      \<lparr>kind = ElementNode ''b'', classList = [], childNodes = [], parentNode = Some 0\<rparr>,
      \<lparr>kind = ElementNode ''p'', classList = [], childNodes = [], parentNode = None\<rparr>]"
  let ?d1 = "[\<lparr>kind = ElementNode ''div'', classList = [], childNodes = [1], parentNode = None\<rparr>,
      \<lparr>kind = ElementNode ''b'', classList = [], childNodes = [], parentNode = Some 0\<rparr>,
      \<lparr>kind = ElementNode ''p'', classList = [], childNodes = [3], parentNode = None\<rparr>,
      \<lparr>kind = TextNode ''42'', classList = [], childNodes = [], parentNode = Some 2\<rparr>]"
  let ?d2 = "[\<lparr>kind = ElementNode ''div'', classList = [], childNodes = [], parentNode = None\<rparr>,
      \<lparr>kind = ElementNode ''b'', classList = [], childNodes = [], parentNode = Some 2\<rparr>,
      \<lparr>kind = ElementNode ''p'', classList = [], childNodes = [1], parentNode = None\<rparr>]"
  let ?d3 = "[\<lparr>kind = ElementNode ''div'', classList = [], childNodes = [], parentNode = None\<rparr>,
        \<lparr>kind = ElementNode ''b'', classList = [], childNodes = [], parentNode = Some 2\<rparr>,
        \<lparr>kind = ElementNode ''p'', classList = [], childNodes = [3, 1], parentNode = None\<rparr>,
        \<lparr>kind = TextNode ''42'', classList = [], childNodes = [], parentNode = Some 2\<rparr>]"
  have wf: "wf_parents ?d" by code_simp
  have el: "is_element ?d 2" by code_simp
  have na: "\<not> inclusive_ancestor ?d 1 2" by code_simp
  have r1: "appendW 2 [JNum 42] ?d = Inr (2, ?d1)" by code_simp
  have r2: "appendW 2 [JWrapper 1] ?d = Inr (2, ?d2)" by code_simp
  have r3: "appendW 2 [JNum 42, JHolder 1 []] ?d = Inr (2, ?d3)" by code_simp
  have str: "int_to_string 42 = ''42''" by code_simp
  note t1 = appendW_child_resolution [of 2 ?d "[]" "[]" "JNum 42" 0]
  note t2 = appendW_child_resolution [of 2 ?d "[]" "[]" "JWrapper 1" 1]
  note t3 = appendW_child_resolution [of 2 ?d "[]" "[]" "JObject [(''element'', JNum 1)]" 0]
  note D1 = t1 [THEN conjunct2, THEN conjunct2, THEN conjunct2, THEN conjunct1, rule_format, OF r1]
  note D2 = t2 [THEN conjunct2, THEN conjunct2, THEN conjunct2, THEN conjunct1, rule_format, OF r2]
  note G2 = t2 [THEN conjunct2, THEN conjunct2, THEN conjunct2, THEN conjunct2,
    THEN conjunct2, THEN conjunct2, rule_format]
  note E3 = t3 [THEN conjunct2, THEN conjunct2, THEN conjunct2, THEN conjunct2,
    THEN conjunct1, rule_format]
  from D1 have a: "appended_text 2 ''42'' ?d ?d1" by (simp add: str)
  from D2 have b: "appended_node 2 1 ?d ?d2" by simp
  have c: "\<exists>d'. appendW 2 [JWrapper 1] ?d = Inr (2, d')"
    by (rule G2) (intro conjI el na, simp_all)
  have e: "appendW 2 [JObject [(''element'', JNum 1)]] ?d = Inl TypeError"
    by (rule E3) simp
  from wf el na r3 a b c e show ?thesis by (intro conjI)
qed

text \<open>An array is a non-null value that is not a wrapper; \<open>append\<close> does not append
  the text of its string conversion, it throws.\<close>

theorem appendW_array_counterexample:
  "to_string (JArray [JNum 1, JNum 2]) = Inr ''1,2'' \<and>
   \<not> eq_null (JArray [JNum 1, JNum 2]) \<and>
   \<not> instanceof_DOMWrapper (JArray [JNum 1, JNum 2]) \<and>
   appendW 0 [JArray [JNum 1, JNum 2]]
     [\<lparr>kind = ElementNode ''div'', classList = [], childNodes = [], parentNode = None\<rparr>] =
   Inl TypeError"
  by code_simp

section \<open>clear\<close>

lemma filter_removeAll_skip: "\<not> P c \<Longrightarrow> filter P (removeAll c xs) = filter P xs"
  by (induction xs) auto

lemma child_links_detach:
  assumes "child_links p d" and "p < length d"
  shows "child_links p (detach c d)"
proof -
  have "c' < length d \<and> parentNode (detach c d ! c') = Some p"
    if "c' \<in> set (childNodes (detach c d ! p))" for c'
  proof -
    from that have "c' \<in> set (childNodes (d ! p))" and ne: "parentNode (d ! c) = Some p \<longrightarrow> c' \<noteq> c"
      using assms(2) by (auto simp: childNodes_detach split: if_splits)
    with assms(1) have c': "c' < length d" "parentNode (d ! c') = Some p"
      by (auto simp: child_links_def list_all_iff)
    with ne show ?thesis by (auto simp: parentNode_detach)
  qed
  then show ?thesis by (simp add: child_links_def list_all_iff)
qed

lemma clear_element_children:
  "is_element d this \<Longrightarrow> child_links this d \<Longrightarrow>
   \<exists>d'. clear this d = Inr (this, d') \<and> length d' = length d \<and>
        childNodes (d' ! this) = filter (\<lambda>c. \<not> is_element d c) (childNodes (d ! this)) \<and>
        (\<forall>i. kind (d' ! i) = kind (d ! i))"
proof (induction this d rule: clear.induct)
  case (1 this d)
  from "1.prems"(1) have lt: "this < length d" by (simp add: is_element_def)
  show ?case
  proof (cases "children this d")
    case Nil
    then have "filter (\<lambda>c. \<not> is_element d c) (childNodes (d ! this)) = childNodes (d ! this)"
      by (auto simp: children_def filter_empty_conv filter_id_conv)
    with Nil "1.prems"(1) show ?thesis by (simp add: clear.simps)
  next
    case (Cons c cs)
    then have "c \<in> set (children this d)" by simp
    then have mem: "c \<in> set (childNodes (d ! this))" and el: "is_element d c"
      by (auto simp: children_def)
    from mem "1.prems"(2) have c: "c < length d" and par: "parentNode (d ! c) = Some this"
      by (auto simp: child_links_def list_all_iff)
    then have rc: "removeChild this c d = Inr (detach c d)"
      using lt by (simp add: removeChild_def)
    have el': "is_element (detach c d) this" using "1.prems"(1) by simp
    from "1.IH" [OF _ Cons rc el' child_links_detach [OF "1.prems"(2) lt]] "1.prems"(1)
    obtain d' where d': "clear this (detach c d) = Inr (this, d')" "length d' = length d"
      "childNodes (d' ! this) =
         filter (\<lambda>c. \<not> is_element d c) (childNodes (detach c d ! this))"
      "\<forall>i. kind (d' ! i) = kind (d ! i)"
      by auto
    have "childNodes (detach c d ! this) = removeAll c (childNodes (d ! this))"
      by (rule childNodes_detach_parent [OF par lt])
    with d'(3) el have "childNodes (d' ! this) =
        filter (\<lambda>c. \<not> is_element d c) (childNodes (d ! this))"
      by (simp add: filter_removeAll_skip)
    moreover have "clear this d = Inr (this, d')"
      using "1.prems"(1) Cons rc d'(1) by (subst clear.simps) simp
    ultimately show ?thesis using d'(2,4) by simp
  qed
qed

text \<open>
  C4 (as the code has it). \<open>clear()\<close> removes the first entry of the container's
  \<open>children\<close>, its child elements, until there is none. On an element whose children
  are linked to it the call returns the wrapper: the child elements are gone, and the
  text nodes among the children stay, in their order. With no child element (so also
  with no child at all) the tree is unchanged.
\<close>

theorem clear_removes_element_children:
  assumes "is_element d this" and "child_links this d"
  shows "\<exists>d'. clear this d = Inr (this, d') \<and>
           childNodes (d' ! this) = filter (\<lambda>c. \<not> is_element d c) (childNodes (d ! this)) \<and>
           children this d' = [] \<and>
           (children this d = [] \<longrightarrow> d' = d)"
proof -
  from clear_element_children [OF assms] obtain d' where
    d': "clear this d = Inr (this, d')" "length d' = length d"
      "childNodes (d' ! this) = filter (\<lambda>c. \<not> is_element d c) (childNodes (d ! this))"
      "\<forall>i. kind (d' ! i) = kind (d ! i)"
    by blast
  from d'(2,4) have "is_element d' = is_element d"
    by (auto simp: is_element_def fun_eq_iff)
  with d'(3) have "children this d' = []" by (simp add: children_def)
  moreover have "children this d = [] \<longrightarrow> d' = d"
    using d'(1) assms(1) by (auto simp: clear.simps)
  ultimately show ?thesis using d'(1,3) by blast
qed

theorem clear_removes_element_children_witness:
  "is_element
     [\<lparr>kind = ElementNode ''td'', classList = [], childNodes = [1, 2], parentNode = None\<rparr>,
      \<lparr>kind = ElementNode ''b'', classList = [], childNodes = [], parentNode = Some 0\<rparr>,
      \<lparr>kind = TextNode ''x'', classList = [], childNodes = [], parentNode = Some 0\<rparr>] 0 \<and>
   child_links 0
     [\<lparr>kind = ElementNode ''td'', classList = [], childNodes = [1, 2], parentNode = None\<rparr>,
      \<lparr>kind = ElementNode ''b'', classList = [], childNodes = [], parentNode = Some 0\<rparr>,
      \<lparr>kind = TextNode ''x'', classList = [], childNodes = [], parentNode = Some 0\<rparr>] \<and>
   (\<exists>d'. clear 0
     [\<lparr>kind = ElementNode ''td'', classList = [], childNodes = [1, 2], parentNode = None\<rparr>,
      \<lparr>kind = ElementNode ''b'', classList = [], childNodes = [], parentNode = Some 0\<rparr>,
      \<lparr>kind = TextNode ''x'', classList = [], childNodes = [], parentNode = Some 0\<rparr>] =
      Inr (0, d') \<and> childNodes (d' ! 0) = [2] \<and> children 0 d' = [])"
proof -
  let ?d = "[\<lparr>kind = ElementNode ''td'', classList = [], childNodes = [1, 2], parentNode = None\<rparr>,
      \<lparr>kind = ElementNode ''b'', classList = [], childNodes = [], parentNode = Some 0\<rparr>,
      \<lparr>kind = TextNode ''x'', classList = [], childNodes = [], parentNode = Some 0\<rparr>]"
  have el: "is_element ?d 0" by (simp add: is_element_def)
  have cl: "child_links 0 ?d" by (simp add: child_links_def)
  have f: "filter (\<lambda>c. \<not> is_element ?d c) (childNodes (?d ! 0)) = [2]"
    by (simp add: is_element_def)
  from clear_removes_element_children [OF el cl] f el cl show ?thesis by auto
qed

text \<open>A cell holding one text node: \<open>clear()\<close> returns at once and the text node is
  still a child.\<close>

theorem clear_keeps_text_counterexample:
  "clear 0
     [\<lparr>kind = ElementNode ''td'', classList = [], childNodes = [1], parentNode = None\<rparr>,
      \<lparr>kind = TextNode ''x'', classList = [], childNodes = [], parentNode = Some 0\<rparr>] =
   Inr (0,
     [\<lparr>kind = ElementNode ''td'', classList = [], childNodes = [1], parentNode = None\<rparr>,
      \<lparr>kind = TextNode ''x'', classList = [], childNodes = [], parentNode = Some 0\<rparr>]) \<and>
   childNodes
     ([\<lparr>kind = ElementNode ''td'', classList = [], childNodes = [1], parentNode = None\<rparr>,
       \<lparr>kind = TextNode ''x'', classList = [], childNodes = [], parentNode = Some 0\<rparr>] ! 0) \<noteq> []"
  by (simp add: clear.simps is_element_def children_def)

section \<open>Frames\<close>

lemma thinned_refl [simp]: "thinned M xs xs"
  unfolding thinned_def by (rule exI [of _ "{}"]) simp


lemma thinned_mono: "thinned M xs ys \<Longrightarrow> M \<subseteq> M' \<Longrightarrow> thinned M' xs ys"
  unfolding thinned_def by blast






lemma frame_refl [simp]: "frame M T d d"
  by (simp add: frame_def)


lemma frame_mono:
  assumes "frame M T d d'" and "M \<subseteq> M'" and "T \<subseteq> T'"
  shows "frame M' T' d d'"
proof -
  have "i \<notin> T" if "i \<notin> T'" for i using that assms(3) by blast
  moreover have "thinned M' (childNodes (d ! i)) (childNodes (d' ! i))"
    if "i < length d" "i \<notin> T" for i
    using that assms(1) thinned_mono [OF _ assms(2)] by (simp add: frame_def)
  ultimately show ?thesis using assms(1) by (simp add: frame_def)
qed








lemma frame_classList_add:
  "classList_add n tok d = Inr d' \<Longrightarrow> n \<in> T \<Longrightarrow> frame M T d d'"
  by (auto simp: classList_add_def frame_def nth_update split: if_splits)






lemma kept_refl [simp]: "kept W d d"
  by (simp add: kept_def)


lemma kept_mono: "kept W d d' \<Longrightarrow> W \<subseteq> W' \<Longrightarrow> kept W' d d'"
  by (auto simp: kept_def)







section \<open>Class tokens\<close>


lemma classList_add_exact:
  assumes "classList_add n tok d = Inr d'"
  shows "classList (d' ! i) =
    classList (d ! i) @ (if i = n \<and> tok \<notin> set (classList (d ! n)) then [tok] else [])"
  using assms by (auto simp: classList_add_def nth_update is_element_def split: if_splits)








section \<open>One cell\<close>








section \<open>Cells and rows that later steps leave alone\<close>



section \<open>One row\<close>



section \<open>All rows\<close>



section \<open>appendRows\<close>






section \<open>When appendRows returns\<close>











lemma appendRows_returns_this: "appendRows this rows d = Inr (r, d') \<Longrightarrow> r = this"
  by (auto simp: appendRows_def split: sum.splits)



section \<open>Cells\<close>

















section \<open>The constructor\<close>

lemma label_converts_primitive: "\<not> typeof_object lbl \<Longrightarrow> label_converts lbl"
  by (cases lbl) (simp_all add: label_converts_def)

lemma TextNodeWrapper_converts:
  "label_converts lbl \<Longrightarrow>
   \<exists>s. TextNodeWrapper lbl d =
     Inr (length d, d @ [\<lparr>kind = TextNode s, classList = [], childNodes = [],
                          parentNode = None\<rparr>])"
  by (cases "to_string lbl")
    (auto simp: label_converts_def TextNodeWrapper_def createTextNode_def)

lemma TextNodeWrapper_Inr:
  "TextNodeWrapper lbl d = Inr (t, d') \<Longrightarrow> label_converts lbl"
  by (cases "to_string lbl")
    (auto simp: label_converts_def TextNodeWrapper_def split: if_splits)

lemma heading_by_name_set:
  "heading_by_name ((set_heading_by_name nm h this)\<lparr>headings := hs\<rparr>) k =
     (if k = nm then Some h else heading_by_name this k)"
  by (simp add: heading_by_name_def set_heading_by_name_def)

lemma set_heading_by_name_fields:
  "table ((set_heading_by_name nm h this)\<lparr>headings := hs\<rparr>) = table this"
  "thead ((set_heading_by_name nm h this)\<lparr>headings := hs\<rparr>) = thead this"
  "tbody ((set_heading_by_name nm h this)\<lparr>headings := hs\<rparr>) = tbody this"
  "element ((set_heading_by_name nm h this)\<lparr>headings := hs\<rparr>) = element this"
  "headings ((set_heading_by_name nm h this)\<lparr>headings := hs\<rparr>) = hs"
  by (simp_all add: set_heading_by_name_def)

lemma TableMaker_loop_succeeds:
  "is_element d headrow \<Longrightarrow> parentNode (d ! headrow) = None \<Longrightarrow>
   list_all (\<lambda>p. label_converts (snd p)) hs \<Longrightarrow>
   \<exists>this' d'. TableMaker_loop headrow i hs this d = Inr (this', d') \<and>
     length d \<le> length d' \<and> is_element d' headrow \<and> parentNode (d' ! headrow) = None \<and>
     (\<forall>n<length d. n \<noteq> headrow \<longrightarrow> d' ! n = d ! n)"
proof (induction hs arbitrary: i this d)
  case Nil
  then show ?case by simp
next
  case (Cons a hs)
  obtain nm lbl where a: "a = (nm, lbl)" by (cases a)
  from Cons.prems(1) have hr: "headrow < length d" by (simp add: is_element_def)
  from Cons.prems(3) a have cv: "label_converts lbl"
    and cvs: "list_all (\<lambda>p. label_converts (snd p)) hs" by simp_all
  let ?tl = "length d" and ?th = "Suc (length d)"
  from TextNodeWrapper_converts [OF cv, of d] obtain s where
    tn: "TextNodeWrapper lbl d =
      Inr (?tl, d @ [\<lparr>kind = TextNode s, classList = [], childNodes = [],
                       parentNode = None\<rparr>])"
    by blast
  let ?tx = "\<lparr>kind = TextNode s, classList = [], childNodes = [], parentNode = None\<rparr>"
  let ?el = "\<lparr>kind = ElementNode ''th'', classList = [], childNodes = [], parentNode = None\<rparr>"
  let ?d2 = "d @ [?tx, ?el]"
  let ?d3 = "insert_last ?th ?tl ?d2"
  let ?d4 = "insert_last headrow ?th ?d3"
  have a1: "appendW ?th [JWrapper ?tl] ?d2 = Inr (?th, ?d3)"
    by (rule appendW_root) (simp_all add: is_element_def nth_append)
  have p3: "parentNode (?d3 ! headrow) = None" "parentNode (?d3 ! ?th) = None"
    using hr Cons.prems(2) by (simp_all add: parentNode_insert_last nth_append)
  have e3: "is_element ?d3 headrow"
    using Cons.prems(1) by (simp add: is_element_def nth_append)
  have a2: "appendW headrow [JWrapper ?th] ?d3 = Inr (headrow, ?d4)"
    by (rule appendW_root [OF e3 p3(1) _ _ p3(2)]) (use hr in simp_all)
  have e4: "is_element ?d4 headrow" using e3 by simp
  have p4: "parentNode (?d4 ! headrow) = None"
    using p3(1) hr by (simp add: parentNode_insert_last)
  let ?h = "\<lparr>name = nm, pos = i, label = ?tl, th = ?th\<rparr>"
  let ?this1 = "(set_heading_by_name nm ?h this)\<lparr>headings := headings this @ [?h]\<rparr>"
  from Cons.IH [OF e4 p4 cvs, of "Suc i" ?this1]
  obtain this' d' where rest: "TableMaker_loop headrow (Suc i) hs ?this1 ?d4 = Inr (this', d')"
    and l: "length ?d4 \<le> length d'" and e: "is_element d' headrow"
    and p: "parentNode (d' ! headrow) = None"
    and same: "\<forall>n<length ?d4. n \<noteq> headrow \<longrightarrow> d' ! n = ?d4 ! n"
    by blast
  have step: "TableMaker_loop headrow i (a # hs) this d = Inr (this', d')"
    unfolding a
    by (simp add: tn ElementWrapper_def createElement_def
        a1 a2 rest Let_def del: appendW.simps)
  have "d' ! n = d ! n" if "n < length d" "n \<noteq> headrow" for n
  proof -
    from that same have "d' ! n = ?d4 ! n" by simp
    also have "\<dots> = ?d3 ! n" using that by (simp add: insert_last_other)
    also have "\<dots> = ?d2 ! n" using that by (simp add: insert_last_other)
    also have "\<dots> = d ! n" using that by (simp add: nth_append)
    finally show ?thesis .
  qed
  with step l e p show ?case by auto
qed

lemma TableMaker_loop_headings:
  "TableMaker_loop headrow i hs this d = Inr (this', d') \<Longrightarrow>
   table this' = table this \<and> thead this' = thead this \<and> tbody this' = tbody this \<and>
   element this' = element this \<and>
   length (headings this') = length (headings this) + length hs \<and>
   (\<forall>n<length (headings this). headings this' ! n = headings this ! n) \<and>
   (\<forall>m<length hs. pos (headings this' ! (length (headings this) + m)) = i + m \<and>
                   name (headings this' ! (length (headings this) + m)) = fst (hs ! m)) \<and>
   (\<forall>nm. nm \<notin> fst ` set hs \<longrightarrow> heading_by_name this' nm = heading_by_name this nm) \<and>
   (distinct (map fst hs) \<longrightarrow>
      (\<forall>m<length hs. heading_by_name this' (fst (hs ! m)) =
                      Some (headings this' ! (length (headings this) + m)))) \<and>
   list_all (\<lambda>p. label_converts (snd p)) hs"
proof (induction hs arbitrary: i this d)
  case Nil
  then show ?case by simp
next
  case (Cons a hs)
  obtain nm lbl where a: "a = (nm, lbl)" by (cases a)
  from Cons.prems obtain tl d1 th0 d2 th1 d3 w d4 where
    tn: "TextNodeWrapper lbl d = Inr (tl, d1)" and "ElementWrapper ''th'' d1 = (th0, d2)"
    "appendW th0 [JWrapper tl] d2 = Inr (th1, d3)"
    "appendW headrow [JWrapper th1] d3 = Inr (w, d4)"
    and rest0: "TableMaker_loop headrow (Suc i) hs
        ((set_heading_by_name nm \<lparr>name = nm, pos = i, label = tl, th = th1\<rparr> this)
           \<lparr>headings := headings this @ [\<lparr>name = nm, pos = i, label = tl, th = th1\<rparr>]\<rparr>)
        d4 = Inr (this', d')"
    unfolding a
    by (auto simp: Let_def split: prod.splits sum.splits simp del: appendW.simps)
  define h where "h = \<lparr>name = nm, pos = i, label = tl, th = th1\<rparr>"
  have h: "name h = nm" "pos h = i" by (simp_all add: h_def)
  let ?this1 = "(set_heading_by_name nm h this)\<lparr>headings := headings this @ [h]\<rparr>"
  have rest: "TableMaker_loop headrow (Suc i) hs ?this1 d4 = Inr (this', d')"
    using rest0 by (simp add: h_def)
  let ?n = "length (headings this)"
  note IH = Cons.IH [OF rest, unfolded set_heading_by_name_fields heading_by_name_set]
  from IH have fields: "table this' = table this \<and> thead this' = thead this \<and>
      tbody this' = tbody this \<and> element this' = element this" by simp
  from IH have len: "length (headings this') = ?n + length (a # hs)" by simp
  from IH have old: "\<And>n. n < Suc ?n \<Longrightarrow> headings this' ! n = (headings this @ [h]) ! n"
    by simp
  from IH have new: "\<And>m. m < length hs \<Longrightarrow>
      pos (headings this' ! (Suc ?n + m)) = Suc i + m \<and>
      name (headings this' ! (Suc ?n + m)) = fst (hs ! m)" by simp
  from IH have other: "\<And>k. k \<notin> fst ` set hs \<Longrightarrow>
      heading_by_name this' k = (if k = nm then Some h else heading_by_name this k)" by simp
  from IH have dist: "distinct (map fst hs) \<Longrightarrow> m < length hs \<Longrightarrow>
      heading_by_name this' (fst (hs ! m)) = Some (headings this' ! (Suc ?n + m))" for m
    by simp
  from IH have cvs: "list_all (\<lambda>p. label_converts (snd p)) hs" by blast
  have at_n: "headings this' ! ?n = h" using old [of ?n] by simp
  have A: "\<forall>n<?n. headings this' ! n = headings this ! n"
    using old by (simp add: nth_append)
  have B: "\<forall>m<length (a # hs). pos (headings this' ! (?n + m)) = i + m \<and>
                   name (headings this' ! (?n + m)) = fst ((a # hs) ! m)"
  proof (intro allI impI)
    fix m assume "m < length (a # hs)"
    then show "pos (headings this' ! (?n + m)) = i + m \<and>
                   name (headings this' ! (?n + m)) = fst ((a # hs) ! m)"
      using at_n h a new by (cases m) auto
  qed
  have C: "\<forall>k. k \<notin> fst ` set (a # hs) \<longrightarrow> heading_by_name this' k = heading_by_name this k"
    using other a by auto
  have D: "distinct (map fst (a # hs)) \<longrightarrow>
      (\<forall>m<length (a # hs). heading_by_name this' (fst ((a # hs) ! m)) =
                      Some (headings this' ! (?n + m)))"
  proof (intro allI impI)
    fix m assume di: "distinct (map fst (a # hs))" and m: "m < length (a # hs)"
    show "heading_by_name this' (fst ((a # hs) ! m)) = Some (headings this' ! (?n + m))"
    proof (cases m)
      case 0
      from di a have "nm \<notin> fst ` set hs" by simp
      from other [OF this] at_n 0 a show ?thesis by simp
    next
      case (Suc m')
      with di m dist [of m'] show ?thesis by simp
    qed
  qed
  have E: "list_all (\<lambda>p. label_converts (snd p)) (a # hs)"
    using cvs TextNodeWrapper_Inr [OF tn] a by simp
  from fields len A B C D E show ?case by blast
qed

lemma new_TableMaker_Inr:
  assumes "new_TableMaker hs d = Inr (this, d')"
  shows "length (headings this) = length hs"
    and "\<forall>m<length hs. pos (headings this ! m) = m \<and> name (headings this ! m) = fst (hs ! m)"
    and "distinct (map fst hs) \<longrightarrow>
        (\<forall>m<length hs. heading_by_name this (fst (hs ! m)) = Some (headings this ! m))"
    and "list_all (\<lambda>p. label_converts (snd p)) hs"
proof -
  from assms obtain hr d4 d5 where
    loop: "TableMaker_loop hr 0 hs
      \<lparr>element = length d, table = length d, thead = Suc (length d),
        tbody = Suc (Suc (length d)), headings_by_name = Map.empty,
        headings_by_name_proto = None, headings = []\<rparr> d4 = Inr (this, d5)"
    by (auto simp: new_TableMaker_def ElementWrapper_def createElement_def Let_def
        split: sum.splits prod.splits simp del: appendW.simps)
  note H = TableMaker_loop_headings [OF loop]
  from H show "length (headings this) = length hs" by simp
  from H show "\<forall>m<length hs. pos (headings this ! m) = m \<and>
      name (headings this ! m) = fst (hs ! m)" by simp
  from H show "distinct (map fst hs) \<longrightarrow>
        (\<forall>m<length hs. heading_by_name this (fst (hs ! m)) = Some (headings this ! m))"
    by simp
  from H show "list_all (\<lambda>p. label_converts (snd p)) hs" by blast
qed

lemma new_TableMaker_succeeds:
  assumes cv: "list_all (\<lambda>p. label_converts (snd p)) hs"
  shows "\<exists>this d'. new_TableMaker hs d = Inr (this, d') \<and>
     element this = length d \<and> table this = length d \<and> thead this = Suc (length d) \<and>
     tbody this = Suc (Suc (length d)) \<and> tbody this < length d' \<and>
     (\<forall>n<length d. d' ! n = d ! n) \<and>
     kind (d' ! tbody this) = ElementNode ''tbody'' \<and>
     childNodes (d' ! tbody this) = [] \<and>
     parentNode (d' ! table this) = None \<and>
     childNodes (d' ! table this) = [thead this, tbody this]"
proof -
  let ?tbl = "length d" and ?thd = "Suc (length d)" and ?tbd = "Suc (Suc (length d))"
  let ?hr = "Suc (Suc (Suc (length d)))"
  let ?E = "\<lambda>tag. \<lparr>kind = ElementNode tag, classList = [], childNodes = [], parentNode = None\<rparr>"
  let ?d4 = "d @ [?E ''table'', ?E ''thead'', ?E ''tbody'', ?E ''tr'']"
  let ?tm0 = "\<lparr>element = ?tbl, table = ?tbl, thead = ?thd, tbody = ?tbd,
                  headings_by_name = Map.empty, headings_by_name_proto = None,
                  headings = []\<rparr>"
  have e4: "is_element ?d4 ?hr" "parentNode (?d4 ! ?hr) = None"
    by (simp_all add: is_element_def nth_append)
  from TableMaker_loop_succeeds [OF e4 cv, of 0 ?tm0]
  obtain this1 d5 where loop: "TableMaker_loop ?hr 0 hs ?tm0 ?d4 = Inr (this1, d5)"
    and l5: "length ?d4 \<le> length d5" and p5: "parentNode (d5 ! ?hr) = None"
    and same: "\<And>n. n < length ?d4 \<Longrightarrow> n \<noteq> ?hr \<Longrightarrow> d5 ! n = ?d4 ! n"
    by blast
  note H = TableMaker_loop_headings [OF loop]
  from H have f: "element this1 = ?tbl" "table this1 = ?tbl" "thead this1 = ?thd"
    "tbody this1 = ?tbd" by simp_all
  have n5: "d5 ! ?tbl = ?E ''table''" "d5 ! ?thd = ?E ''thead''" "d5 ! ?tbd = ?E ''tbody''"
    using same [of ?tbl] same [of ?thd] same [of ?tbd] by (simp_all add: nth_append)
  have lt: "?tbl < length d5" "?thd < length d5" "?tbd < length d5" "?hr < length d5"
    using l5 by simp_all
  let ?d6 = "insert_last ?thd ?hr d5"
  let ?d7 = "insert_last ?tbl ?thd ?d6"
  let ?d8 = "insert_last ?tbl ?tbd ?d7"
  have a6: "appendW ?thd [JWrapper ?hr] d5 = Inr (?thd, ?d6)"
    by (rule appendW_root) (use lt n5 p5 in \<open>simp_all add: is_element_def\<close>)
  have n6: "?d6 ! ?tbl = ?E ''table''" "?d6 ! ?tbd = ?E ''tbody''"
    "parentNode (?d6 ! ?thd) = None"
    using n5 lt by (simp_all add: insert_last_other parentNode_insert_last)
  have c7: "appendChild ?tbl ?thd ?d6 = Inr ?d7"
    by (rule appendChild_root) (use lt n5 n6 in \<open>simp_all add: is_element_def\<close>)
  have n7: "kind (?d7 ! ?tbl) = ElementNode ''table''" "parentNode (?d7 ! ?tbl) = None"
    "childNodes (?d7 ! ?tbl) = [?thd]" "?d7 ! ?tbd = ?E ''tbody''"
    using n6 lt by (simp_all add: insert_last_other parentNode_insert_last childNodes_insert_last)
  have c8: "appendChild ?tbl ?tbd ?d7 = Inr ?d8"
    by (rule appendChild_root) (use lt n5 n7 in \<open>simp_all add: is_element_def\<close>)
  have a8: "appendW ?tbl [JWrapper ?thd, JWrapper ?tbd] ?d6 = Inr (?tbl, ?d8)"
    by (simp add: resolve_child_def c7 c8)
  have run: "new_TableMaker hs d = Inr (this1, ?d8)"
    by (simp add: new_TableMaker_def ElementWrapper_def createElement_def Let_def loop f a6 a8
        del: appendW.simps)
  have old: "?d8 ! n = d ! n" if "n < length d" for n
  proof -
    have "?d8 ! n = d5 ! n" using that by (simp add: insert_last_other)
    also have "\<dots> = ?d4 ! n" using that by (intro same) simp_all
    also have "\<dots> = d ! n" using that by (simp add: nth_append)
    finally show ?thesis .
  qed
  have body: "kind (?d8 ! ?tbd) = ElementNode ''tbody''" "childNodes (?d8 ! ?tbd) = []"
    "childNodes (?d8 ! ?tbl) = [?thd, ?tbd]" "?tbd < length ?d8"
    "parentNode (?d8 ! ?tbl) = None"
    using n7 lt by (simp_all add: childNodes_insert_last parentNode_insert_last)
  have "new_TableMaker hs d = Inr (this1, ?d8) \<and>
     element this1 = length d \<and> table this1 = length d \<and> thead this1 = Suc (length d) \<and>
     tbody this1 = Suc (Suc (length d)) \<and> tbody this1 < length ?d8 \<and>
     (\<forall>n<length d. ?d8 ! n = d ! n) \<and>
     kind (?d8 ! tbody this1) = ElementNode ''tbody'' \<and>
     childNodes (?d8 ! tbody this1) = [] \<and>
     parentNode (?d8 ! table this1) = None \<and>
     childNodes (?d8 ! table this1) = [thead this1, tbody this1]"
    unfolding f using run old body by (intro conjI) simp_all
  then show ?thesis by (intro exI)
qed

text \<open>
  C7. The constructor returns for every sequence of heading descriptors whose labels
  are falsy or convert to a string, as every label does that is not an object. Whenever
  it returns, the renderer stores one heading for each descriptor, in order; the \<open>i\<close>-th
  stored heading has position \<open>i\<close> and the \<open>i\<close>-th name; and, when the names are
  pairwise distinct, the index by name gives for the \<open>i\<close>-th name exactly the \<open>i\<close>-th
  stored heading. A call of \<open>appendRows\<close> that returns gives back the same renderer:
  the heading sequence and the index are as they were.
\<close>

theorem new_TableMaker_headings_indexed:
  "(list_all (\<lambda>p. \<not> typeof_object (snd p) \<or> label_converts (snd p)) hs \<longrightarrow>
      (\<exists>this d'. new_TableMaker hs d = Inr (this, d'))) \<and>
   (\<forall>this d'. new_TableMaker hs d = Inr (this, d') \<longrightarrow>
      length (headings this) = length hs \<and>
      (\<forall>i<length hs. pos (headings this ! i) = i \<and>
                      name (headings this ! i) = fst (hs ! i)) \<and>
      (distinct (map fst hs) \<longrightarrow>
         (\<forall>i<length hs. heading_by_name this (fst (hs ! i)) = Some (headings this ! i))) \<and>
      (\<forall>rows d1 r d2. appendRows this rows d1 = Inr (r, d2) \<longrightarrow>
         r = this \<and> headings r = headings this \<and>
         heading_by_name r = heading_by_name this))"
proof (intro conjI impI allI)
  assume "list_all (\<lambda>p. \<not> typeof_object (snd p) \<or> label_converts (snd p)) hs"
  then have "list_all (\<lambda>p. label_converts (snd p)) hs"
    by (induction hs) (auto dest: label_converts_primitive)
  from new_TableMaker_succeeds [OF this, of d]
  show "\<exists>this d'. new_TableMaker hs d = Inr (this, d')" by blast
next
  fix this d' assume run: "new_TableMaker hs d = Inr (this, d')"
  show "length (headings this) = length hs" by (rule new_TableMaker_Inr(1) [OF run])
next
  fix this d' i assume run: "new_TableMaker hs d = Inr (this, d')" and i: "i < length hs"
  from new_TableMaker_Inr(2) [OF run] i
  show "pos (headings this ! i) = i" and "name (headings this ! i) = fst (hs ! i)"
    by simp_all
next
  fix this d' i assume run: "new_TableMaker hs d = Inr (this, d')" and i: "i < length hs"
    and di: "distinct (map fst hs)"
  from new_TableMaker_Inr(3) [OF run] i di
  show "heading_by_name this (fst (hs ! i)) = Some (headings this ! i)" by simp
next
  fix this d' rows d1 r d2
  assume "appendRows this rows d1 = Inr (r, d2)"
  then have r: "r = this" by (rule appendRows_returns_this)
  then show "r = this" and "headings r = headings this"
    and "heading_by_name r = heading_by_name this" by simp_all
qed

section \<open>The example\<close>

lemma demo_constructed:
  "new_TableMaker demo_headings
     [\<lparr>kind = ElementNode ''b'', classList = [], childNodes = [], parentNode = None\<rparr>] =
   Inr (demo_table, demo_dom)"
  by (simp add: new_TableMaker_def demo_headings_def demo_table_def demo_dom_def
      ElementWrapper_def createElement_def TextNodeWrapper_def createTextNode_def
      resolve_child_def appendChild_def is_element_def inclusive_ancestor_def
      detach_def insert_last_def set_heading_by_name_def Let_def eval_nat_numeral)




















text \<open>
  The constructor on two heading descriptors, the first of them named \<open>__proto__\<close>:
  for C7.
\<close>

theorem new_TableMaker_headings_indexed_witness:
  "list_all (\<lambda>p. \<not> typeof_object (snd p) \<or> label_converts (snd p))
     [(''__proto__'', JStr ''P''), (''v'', JNum 1)] \<and>
   distinct (map fst [(''__proto__'', JStr ''P''), (''v'', JNum 1)]) \<and>
   (\<exists>this d'. new_TableMaker [(''__proto__'', JStr ''P''), (''v'', JNum 1)] [] =
        Inr (this, d') \<and>
      length (headings this) = 2 \<and>
      pos (headings this ! 0) = 0 \<and> name (headings this ! 0) = ''__proto__'' \<and>
      heading_by_name this ''__proto__'' = Some (headings this ! 0) \<and>
      pos (headings this ! 1) = 1 \<and> name (headings this ! 1) = ''v'' \<and>
      heading_by_name this ''v'' = Some (headings this ! 1))"
proof -
  let ?hs = "[(''__proto__'', JStr ''P''), (''v'', JNum 1 :: jsval)]"
  have pr: "list_all (\<lambda>p. \<not> typeof_object (snd p) \<or> label_converts (snd p)) ?hs" by simp
  have di: "distinct (map fst ?hs)" by simp
  note t = new_TableMaker_headings_indexed [of ?hs "[]"]
  from t [THEN conjunct1, rule_format, OF pr] obtain this d' where
    run: "new_TableMaker ?hs [] = Inr (this, d')" by blast
  note u = t [THEN conjunct2, rule_format, OF run]
  from u have l: "length (headings this) = 2" by simp
  have i: "0 < length ?hs" "1 < length ?hs" by simp_all
  note p0 = u [THEN conjunct2, THEN conjunct1, rule_format, OF i(1)]
  note p1 = u [THEN conjunct2, THEN conjunct1, rule_format, OF i(2)]
  note x0 = u [THEN conjunct2, THEN conjunct2, THEN conjunct1, rule_format, OF di i(1)]
  note x1 = u [THEN conjunct2, THEN conjunct2, THEN conjunct1, rule_format, OF di i(2)]
  from p0 have a0: "pos (headings this ! 0) = 0" "name (headings this ! 0) = ''__proto__''"
    by simp_all
  from p1 have a1: "pos (headings this ! 1) = 1" "name (headings this ! 1) = ''v''"
    by simp_all
  from x0 have b0: "heading_by_name this ''__proto__'' = Some (headings this ! 0)" by simp
  from x1 have b1: "heading_by_name this ''v'' = Some (headings this ! 1)" by simp
  from run l a0 b0 a1 b1 have "\<exists>this d'. new_TableMaker ?hs [] = Inr (this, d') \<and>
      length (headings this) = 2 \<and>
      pos (headings this ! 0) = 0 \<and> name (headings this ! 0) = ''__proto__'' \<and>
      heading_by_name this ''__proto__'' = Some (headings this ! 0) \<and>
      pos (headings this ! 1) = 1 \<and> name (headings this ! 1) = ''v'' \<and>
      heading_by_name this ''v'' = Some (headings this ! 1)" by blast
  with pr di show ?thesis by (intro conjI)
qed


end
